theory Spec2Isabelle
  imports Complex_Main "HOL-Library.Word"
begin

unbundle bit_operations_syntax

section \<open>Double-precision arithmetic\<close>

text \<open>
  The distribution functions of \<^verbatim>\<open>sb_rand.c\<close> compute in C \<^verbatim>\<open>double\<close>. A finite
  double is modelled by the rational number it denotes. Every arithmetic operation of the
  source is the exact operation on rationals followed by \<open>fl\<close>, rounding to the nearest
  double (binary64: 53 significant bits, ties to the even significand, gradual underflow
  below \<open>2 powi - 1022\<close>). This is how a C compiler evaluates \<^verbatim>\<open>double\<close> expressions where
  \<^verbatim>\<open>FLT_EVAL_METHOD\<close> is 0 and products are not fused with sums, as on x86-64.
  Overflow to infinity needs magnitudes of \<open>2 ^ 1024\<close>; the values computed here are
  products and sums of 32-bit integers, percentages and numbers in \<open>[0,1)\<close>, so the only
  non-finite doubles that can arise come from a division by zero, which \<open>fdiv\<close> reports as
  \<open>None\<close>, and from the C library's \<^verbatim>\<open>log\<close> and \<^verbatim>\<open>pow\<close>, whose results are values of
  \<open>xdouble\<close>.
\<close>

type_synonym double = rat

text \<open>Number of binary digits of a positive integer.\<close>

function bit_length :: "int \<Rightarrow> nat" where
  "bit_length n = (if n \<le> 0 then 0 else Suc (bit_length (n div 2)))"
  by pat_completeness auto
termination
  by (relation "measure nat") auto

declare bit_length.simps [simp del]

text \<open>\<open>ilog2 x\<close> is the binary exponent of \<open>x > 0\<close>: \<open>2 powi ilog2 x \<le> x < 2 powi (ilog2 x + 1)\<close>.\<close>

definition ilog2 :: "rat \<Rightarrow> int" where
  "ilog2 x = (if 1 \<le> x then int (bit_length \<lfloor>x\<rfloor>) - 1
              else - int (bit_length (\<lceil>1 / x\<rceil> - 1)))"

definition round_ties_even :: "rat \<Rightarrow> int" where
  "round_ties_even x =
     (let f = \<lfloor>x\<rfloor>; r = x - of_int f
      in if r < 1 / 2 then f
         else if 1 / 2 < r then f + 1
         else if even f then f else f + 1)"

text \<open>The spacing of the doubles around \<open>x \<noteq> 0\<close>.\<close>

definition quantum :: "rat \<Rightarrow> rat" where
  "quantum x = 2 powi (max (ilog2 \<bar>x\<bar>) (- 1022) - 52)"

definition fl :: "rat \<Rightarrow> double" where
  "fl x = (if x = 0 then 0
           else of_int (round_ties_even (x / quantum x)) * quantum x)"

definition representable :: "rat \<Rightarrow> bool" where
  "representable x = (fl x = x)"

definition fadd :: "double \<Rightarrow> double \<Rightarrow> double" where
  "fadd x y = fl (x + y)"

definition fsub :: "double \<Rightarrow> double \<Rightarrow> double" where
  "fsub x y = fl (x - y)"

definition fmul :: "double \<Rightarrow> double \<Rightarrow> double" where
  "fmul x y = fl (x * y)"

text \<open>Division; \<open>None\<close> stands for the infinity or NaN that a zero divisor produces.\<close>

definition fdiv :: "double \<Rightarrow> double \<Rightarrow> double option" where
  "fdiv x y = (if y = 0 then None else Some (fl (x / y)))"

text \<open>
  A double that may be infinite or not a number, for the quotient of the two logarithms in
  \<^verbatim>\<open>sb_rand_init\<close>. \<open>xdiv\<close> is the IEEE division: a finite number divided by an infinity
  is zero, and a division by zero gives an infinity, or NaN when the dividend is zero too.
  The two zeros of binary64 are both the rational \<open>0\<close>; a zero divisor is taken as
  \<open>+0\<close>, the only zero that \<^verbatim>\<open>log\<close> returns.
\<close>

datatype xdouble = Finite double | PInf | MInf | NaN

fun xdiv :: "xdouble \<Rightarrow> xdouble \<Rightarrow> xdouble" where
  "xdiv (Finite x) (Finite y) =
     (if y \<noteq> 0 then Finite (fl (x / y))
      else if 0 < x then PInf else if x < 0 then MInf else NaN)"
| "xdiv (Finite x) PInf = Finite 0"
| "xdiv (Finite x) MInf = Finite 0"
| "xdiv PInf (Finite y) = (if 0 \<le> y then PInf else MInf)"
| "xdiv MInf (Finite y) = (if 0 \<le> y then MInf else PInf)"
| "xdiv PInf PInf = NaN"
| "xdiv PInf MInf = NaN"
| "xdiv MInf PInf = NaN"
| "xdiv MInf MInf = NaN"
| "xdiv NaN y = NaN"
| "xdiv x NaN = NaN"

type_synonym u32 = "32 word"
type_synonym u64 = "64 word"

text \<open>Conversion of an \<^verbatim>\<open>unsigned int\<close> to \<^verbatim>\<open>double\<close> is exact.\<close>

definition of_u32 :: "u32 \<Rightarrow> double" where
  "of_u32 w = of_nat (unat w)"

text \<open>
  Conversion of a \<^verbatim>\<open>double\<close> to \<^verbatim>\<open>uint32_t\<close> discards the fractional part. It is
  defined only when the truncated value fits; otherwise the behaviour of the C program is
  undefined, which is the result \<open>None\<close>.
\<close>

definition to_u32 :: "double \<Rightarrow> u32 option" where
  "to_u32 x = (if - 1 < x \<and> x < 2 ^ 32
               then Some (word_of_int (if 0 \<le> x then \<lfloor>x\<rfloor> else \<lceil>x\<rceil>))
               else None)"

section \<open>Configuration and process state\<close>

text \<open>
  The values that the option resolver returns to \<^verbatim>\<open>sb_rand_init\<close>
  (\<^verbatim>\<open>sb_get_value_string\<close>, \<^verbatim>\<open>sb_get_value_int\<close>, \<^verbatim>\<open>sb_get_value_float\<close>), one field
  per entry of \<^verbatim>\<open>rand_args\<close>.
\<close>

record options =
  opt_rand_type :: string
  opt_rand_spec_iter :: int
  opt_rand_spec_pct :: int
  opt_rand_spec_res :: int
  opt_rand_seed :: int
  opt_rand_pareto_h :: double

text \<open>
  \<^verbatim>\<open>log\<close> and \<^verbatim>\<open>pow\<close> belong to the C library. They are parameters of the model. The
  argument of \<^verbatim>\<open>log\<close> and the base of \<^verbatim>\<open>pow\<close> are finite in every call of
  \<^verbatim>\<open>sb_rand.c\<close>; the exponent of \<^verbatim>\<open>pow\<close> is \<^verbatim>\<open>pareto_power\<close>, which need not be.
\<close>

record libm =
  lm_log :: "double \<Rightarrow> xdouble"
  lm_pow :: "double \<Rightarrow> xdouble \<Rightarrow> xdouble"

datatype rand_dist_t =
  DIST_TYPE_UNIFORM | DIST_TYPE_GAUSSIAN | DIST_TYPE_SPECIAL | DIST_TYPE_PARETO

text \<open>The addresses that \<^verbatim>\<open>rand_func\<close> can hold; the null pointer is \<open>None\<close>.\<close>

datatype rand_fn = Fn_uniform | Fn_gaussian | Fn_special | Fn_pareto

datatype log_level = LOG_FATAL

text \<open>
  The file-level variables of \<^verbatim>\<open>sb_rand.c\<close>. The two pre-computed constants that are
  quotients with a configurable divisor are \<open>None\<close> when that divisor is zero.
\<close>

record statics =
  sb_rand_seed :: int
  rand_type :: rand_dist_t
  rand_func :: "rand_fn option"
  rand_iter :: u32
  rand_pct :: u32
  rand_res :: u32
  rand_iter_mult :: "double option"
  rand_pct_mult :: double
  rand_pct_2_mult :: double
  rand_res_mult :: "double option"
  pareto_h :: double
  pareto_power :: xdouble
  rnd_seed :: u64

text \<open>
  A process as one thread sees it: the statics, the thread-local \<^verbatim>\<open>sb_rng_state\<close>, the
  values that the coming calls of the C library's \<^verbatim>\<open>random()\<close> will return (already cast
  to \<^verbatim>\<open>uint64_t\<close>), and the messages passed to \<^verbatim>\<open>log_text\<close>. The mutex only serialises
  the calls of \<^verbatim>\<open>sb_rand_uniq\<close>; a call is one step here.
\<close>

type_synonym rng_state = "u64 \<times> u64"

record process = statics +
  sb_rng_state :: rng_state
  libc_random :: "nat \<Rightarrow> u64"
  log_out :: "(log_level \<times> string) list"

definition LARGE_PRIME :: u64 where
  "LARGE_PRIME = 2147483647"

definition UINT32_MAX :: u64 where
  "UINT32_MAX = 4294967295"

text \<open>The state of a process before \<^verbatim>\<open>sb_rand_init\<close>: static storage is zero-initialised.\<close>

definition startup :: "(nat \<Rightarrow> u64) \<Rightarrow> process" where
  "startup r =
     \<lparr>sb_rand_seed = 0, rand_type = DIST_TYPE_UNIFORM, rand_func = None,
      rand_iter = 0, rand_pct = 0, rand_res = 0,
      rand_iter_mult = Some 0, rand_pct_mult = 0, rand_pct_2_mult = 0,
      rand_res_mult = Some 0, pareto_h = 0, pareto_power = Finite 0, rnd_seed = 0,
      sb_rng_state = (0, 0), libc_random = r, log_out = []\<rparr>"

section \<open>Seeding\<close>

definition random_libc :: "(nat \<Rightarrow> u64) \<Rightarrow> u64 \<times> (nat \<Rightarrow> u64)" where
  "random_libc r = (r 0, \<lambda>i. r (Suc i))"

text \<open>
  \<^verbatim>\<open>sb_rand_thread_init\<close>: four calls of \<^verbatim>\<open>random()\<close>, each reduced modulo
  \<^verbatim>\<open>UINT32_MAX\<close>, composed into two 64-bit words. The calls are taken in the order in which
  they are written.
\<close>

definition sb_rand_thread_init :: "process \<Rightarrow> process" where
  "sb_rand_thread_init p =
     (case random_libc (libc_random p) of (x1, r1) \<Rightarrow>
      case random_libc r1 of (x2, r2) \<Rightarrow>
      case random_libc r2 of (x3, r3) \<Rightarrow>
      case random_libc r3 of (x4, r4) \<Rightarrow>
        p\<lparr>sb_rng_state :=
             (push_bit 32 (x1 mod UINT32_MAX) OR (x2 mod UINT32_MAX),
              push_bit 32 (x3 mod UINT32_MAX) OR (x4 mod UINT32_MAX)),
           libc_random := r4\<rparr>)"

section \<open>Initialisation\<close>

definition select_distribution :: "string \<Rightarrow> process \<Rightarrow> process option" where
  "select_distribution s p =
     (if s = ''uniform'' then
        Some (p\<lparr>rand_type := DIST_TYPE_UNIFORM, rand_func := Some Fn_uniform\<rparr>)
      else if s = ''gaussian'' then
        Some (p\<lparr>rand_type := DIST_TYPE_GAUSSIAN, rand_func := Some Fn_gaussian\<rparr>)
      else if s = ''special'' then
        Some (p\<lparr>rand_type := DIST_TYPE_SPECIAL, rand_func := Some Fn_special\<rparr>)
      else if s = ''pareto'' then
        Some (p\<lparr>rand_type := DIST_TYPE_PARETO, rand_func := Some Fn_pareto\<rparr>)
      else None)"

text \<open>\<^verbatim>\<open>log(pareto_h) / log(1.0 - pareto_h)\<close>.\<close>

definition compute_pareto_power :: "libm \<Rightarrow> double \<Rightarrow> xdouble" where
  "compute_pareto_power lm h = xdiv (lm_log lm h) (lm_log lm (fsub 1 h))"

text \<open>
  \<^verbatim>\<open>sb_rand_init\<close> returns the status and the new state. An unknown distribution name is
  logged and ends the function at once with status 1, before any parameter is read.
\<close>

definition sb_rand_init :: "libm \<Rightarrow> options \<Rightarrow> process \<Rightarrow> int \<times> process" where
  "sb_rand_init lm opts p0 =
     (let p1 = p0\<lparr>sb_rand_seed := opt_rand_seed opts\<rparr>;
          s = opt_rand_type opts
      in case select_distribution s p1 of
           None \<Rightarrow>
             (1, p1\<lparr>log_out := log_out p1 @
                     [(LOG_FATAL, ''Invalid random numbers distribution: '' @ s @ ''.'')]\<rparr>)
         | Some p2 \<Rightarrow>
             (let iter = (word_of_int (opt_rand_spec_iter opts) :: u32);
                  pct = (word_of_int (opt_rand_spec_pct opts) :: u32);
                  res = (word_of_int (opt_rand_spec_res opts) :: u32);
                  h = opt_rand_pareto_h opts;
                  p3 = p2\<lparr>rand_iter := iter,
                          rand_iter_mult := fdiv 1 (of_u32 iter),
                          rand_pct := pct,
                          rand_pct_mult := fl (of_u32 pct / 100),
                          rand_pct_2_mult := fl (of_u32 pct / 200),
                          rand_res := res,
                          rand_res_mult := fdiv 100 (fsub 100 (of_u32 res)),
                          pareto_h := h,
                          pareto_power := compute_pareto_power lm h,
                          rnd_seed := LARGE_PRIME\<rparr>
              in (0, sb_rand_thread_init p3)))"

section \<open>Distributions\<close>

text \<open>
  \<^verbatim>\<open>sb_rand_uniform_double\<close> is declared in \<^verbatim>\<open>sb_rand.h\<close>; it advances the bit
  generator of the calling thread and returns a double in \<open>[0,1)\<close>. The functions below take
  it as the parameter \<open>nd\<close>, a step on a generator state of any type \<open>'s\<close>. Each returns the
  \<^verbatim>\<open>uint32_t\<close> result, \<open>None\<close> where the C program has no defined result, and the
  generator state after the draws it made.
\<close>

definition sb_rand_uniform ::
  "('s \<Rightarrow> double \<times> 's) \<Rightarrow> u32 \<Rightarrow> u32 \<Rightarrow> 's \<Rightarrow> u32 option \<times> 's" where
  "sb_rand_uniform nd a b s =
     (case nd s of (u, s') \<Rightarrow>
        (to_u32 (fadd (of_u32 a) (fmul u (of_u32 (b - a + 1)))), s'))"

function gaussian_loop ::
  "('s \<Rightarrow> double \<times> 's) \<Rightarrow> double \<Rightarrow> nat \<Rightarrow> nat \<Rightarrow> double \<Rightarrow> 's \<Rightarrow> double \<times> 's" where
  "gaussian_loop nd t n i sm s =
     (if i < n
      then gaussian_loop nd t n (i + 1) (fadd sm (fmul (fst (nd s)) t)) (snd (nd s))
      else (sm, s))"
  by pat_completeness auto
termination
  by (relation "measure (\<lambda>(nd, t, n, i, sm, s). n - i)") auto

declare gaussian_loop.simps [simp del]

definition add_u32_result :: "u32 \<Rightarrow> u32 option \<Rightarrow> u32 option" where
  "add_u32_result a r = (case r of None \<Rightarrow> None | Some v \<Rightarrow> Some (a + v))"

definition sb_rand_gaussian ::
  "'a statics_scheme \<Rightarrow> ('s \<Rightarrow> double \<times> 's) \<Rightarrow> u32 \<Rightarrow> u32 \<Rightarrow> 's \<Rightarrow> u32 option \<times> 's" where
  "sb_rand_gaussian g nd a b s =
     (let t = of_u32 (b - a + 1)
      in case gaussian_loop nd t (unat (rand_iter g)) 0 0 s of (sm, s') \<Rightarrow>
           (case rand_iter_mult g of
              None \<Rightarrow> None
            | Some m \<Rightarrow> add_u32_result a (to_u32 (fmul sm m)), s'))"

function special_loop ::
  "('s \<Rightarrow> double \<times> 's) \<Rightarrow> nat \<Rightarrow> nat \<Rightarrow> double \<Rightarrow> 's \<Rightarrow> double \<times> 's" where
  "special_loop nd n i sm s =
     (if i < n
      then special_loop nd n (i + 1) (fadd sm (fst (nd s))) (snd (nd s))
      else (sm, s))"
  by pat_completeness auto
termination
  by (relation "measure (\<lambda>(nd, n, i, sm, s). n - i)") auto

declare special_loop.simps [simp del]

text \<open>
  The branch test \<^verbatim>\<open>res < t\<close> of \<^verbatim>\<open>sb_rand_special\<close>. With \<^verbatim>\<open>rand_res_mult\<close> infinite
  the product is infinite or NaN and the comparison is false.
\<close>

definition special_cold :: "'a statics_scheme \<Rightarrow> double \<Rightarrow> double \<Rightarrow> bool" where
  "special_cold g t rnd =
     (case rand_res_mult g of
        None \<Rightarrow> False
      | Some m \<Rightarrow> fmul rnd (fmul t m) < t)"

definition special_hot_res :: "'a statics_scheme \<Rightarrow> double \<Rightarrow> double \<Rightarrow> double" where
  "special_hot_res g t rnd =
     (let d = fmul t (rand_pct_mult g);
          res = fmul rnd (fadd d 1)
      in fadd res (fsub (fl (t / 2)) (fmul t (rand_pct_2_mult g))))"

definition sb_rand_special ::
  "'a statics_scheme \<Rightarrow> ('s \<Rightarrow> double \<times> 's) \<Rightarrow> u32 \<Rightarrow> u32 \<Rightarrow> 's \<Rightarrow> u32 option \<times> 's" where
  "sb_rand_special g nd a b s =
     (let t = of_u32 (b - a)
      in case nd s of (rnd, s1) \<Rightarrow>
           if special_cold g t rnd then
             (case special_loop nd (unat (rand_iter g)) 0 0 s1 of (sm, s2) \<Rightarrow>
                (case rand_iter_mult g of
                   None \<Rightarrow> None
                 | Some m \<Rightarrow> to_u32 (fadd (of_u32 a) (fmul (fmul sm t) m)), s2))
           else (add_u32_result a (to_u32 (special_hot_res g t rnd)), s1))"

text \<open>
  \<^verbatim>\<open>sb_rand_pareto\<close>. When \<^verbatim>\<open>pow\<close> returns an infinity or NaN, so is the product, and
  its conversion to \<^verbatim>\<open>uint32_t\<close> has no defined result.
\<close>

definition sb_rand_pareto ::
  "libm \<Rightarrow> 'a statics_scheme \<Rightarrow> ('s \<Rightarrow> double \<times> 's) \<Rightarrow> u32 \<Rightarrow> u32 \<Rightarrow> 's \<Rightarrow> u32 option \<times> 's" where
  "sb_rand_pareto lm g nd a b s =
     (case nd s of (u, s') \<Rightarrow>
        (case lm_pow lm u (pareto_power g) of
           Finite y \<Rightarrow> add_u32_result a (to_u32 (fmul (of_u32 (b - a + 1)) y))
         | _ \<Rightarrow> None, s'))"

text \<open>\<^verbatim>\<open>sb_rand_default\<close> calls through \<^verbatim>\<open>rand_func\<close>; a null pointer has no result.\<close>

definition sb_rand_default ::
  "libm \<Rightarrow> 'a statics_scheme \<Rightarrow> ('s \<Rightarrow> double \<times> 's) \<Rightarrow> u32 \<Rightarrow> u32 \<Rightarrow> 's \<Rightarrow> u32 option \<times> 's" where
  "sb_rand_default lm g nd a b s =
     (case rand_func g of
        None \<Rightarrow> (None, s)
      | Some Fn_uniform \<Rightarrow> sb_rand_uniform nd a b s
      | Some Fn_gaussian \<Rightarrow> sb_rand_gaussian g nd a b s
      | Some Fn_special \<Rightarrow> sb_rand_special g nd a b s
      | Some Fn_pareto \<Rightarrow> sb_rand_pareto lm g nd a b s)"

section \<open>Unique identifiers\<close>

text \<open>
  \<^verbatim>\<open>sb_rand_uniq\<close>: the divisor \<^verbatim>\<open>b - a + 1\<close> is computed in 32 bits and widened; when it
  wraps to zero the remainder is undefined and the counter is left as it was.
\<close>

definition sb_rand_uniq :: "u32 \<Rightarrow> u32 \<Rightarrow> 'a statics_scheme \<Rightarrow> u32 option \<times> 'a statics_scheme" where
  "sb_rand_uniq a b g =
     (let n = (ucast (b - a + 1) :: u64)
      in if n = 0 then (None, g)
         else (let res = (ucast (rnd_seed g mod n) :: u32)
               in (Some (res + a), g\<lparr>rnd_seed := rnd_seed g + LARGE_PRIME\<rparr>)))"

section \<open>Random strings\<close>

text \<open>
  \<^verbatim>\<open>sb_rand_str\<close>: \<open>fmt\<close> is the template up to, and without, its terminating null
  character, so that the loop test \<^verbatim>\<open>fmt[i] != '\0'\<close> is \<open>i < length fmt\<close>; \<open>buf\<close> is the
  caller's buffer, disjoint from the template. A store beyond the end of the buffer has no
  defined result. The index is an \<^verbatim>\<open>unsigned int\<close>: on a template of \<open>2 ^ 32\<close> characters
  or more it would wrap before reaching the terminator and the loop would not end, which is
  \<open>None\<close> as well.
\<close>

definition store_char :: "u32 \<Rightarrow> char" where
  "store_char r = char_of (unat r)"

function str_loop ::
  "('s \<Rightarrow> double \<times> 's) \<Rightarrow> string \<Rightarrow> nat \<Rightarrow> string \<Rightarrow> 's \<Rightarrow> (string \<times> 's) option" where
  "str_loop nd fmt i buf s =
     (if i < length fmt then
        if length buf \<le> i then None
        else if fmt ! i = CHR ''#'' then
          (case fst (sb_rand_uniform nd (of_char CHR ''0'') (of_char CHR ''9'') s) of
             None \<Rightarrow> None
           | Some r \<Rightarrow>
               str_loop nd fmt (i + 1) (buf[i := store_char r])
                 (snd (sb_rand_uniform nd (of_char CHR ''0'') (of_char CHR ''9'') s)))
        else if fmt ! i = CHR ''@'' then
          (case fst (sb_rand_uniform nd (of_char CHR ''a'') (of_char CHR ''z'') s) of
             None \<Rightarrow> None
           | Some r \<Rightarrow>
               str_loop nd fmt (i + 1) (buf[i := store_char r])
                 (snd (sb_rand_uniform nd (of_char CHR ''a'') (of_char CHR ''z'') s)))
        else str_loop nd fmt (i + 1) (buf[i := fmt ! i]) s
      else Some (buf, s))"
  by pat_completeness auto
termination
  by (relation "measure (\<lambda>(nd, fmt, i, buf, s). length fmt - i)") auto

declare str_loop.simps [simp del]

definition sb_rand_str ::
  "('s \<Rightarrow> double \<times> 's) \<Rightarrow> string \<Rightarrow> string \<Rightarrow> 's \<Rightarrow> (string \<times> 's) option" where
  "sb_rand_str nd fmt buf s =
     (if 2 ^ 32 \<le> length fmt then None else str_loop nd fmt 0 buf s)"

section \<open>Runs of a process\<close>

text \<open>
  What a thread can call, and what the call returns to it.
\<close>

datatype call = Call_init | Call_thread_init | Call_generate u32 u32

datatype outcome = Status int | Seeded | Generated "u32 option"

text \<open>
  One call made by the thread whose \<^verbatim>\<open>sb_rng_state\<close> the process record holds. The bit
  generator behind \<^verbatim>\<open>sb_rand_uniform_double\<close> works on \<^verbatim>\<open>sb_rng_state\<close>.
\<close>

definition step ::
  "libm \<Rightarrow> options \<Rightarrow> (rng_state \<Rightarrow> double \<times> rng_state) \<Rightarrow> call \<Rightarrow> process \<Rightarrow>
     outcome \<times> process" where
  "step lm opts nd c p =
     (case c of
        Call_init \<Rightarrow> (case sb_rand_init lm opts p of (rc, p') \<Rightarrow> (Status rc, p'))
      | Call_thread_init \<Rightarrow> (Seeded, sb_rand_thread_init p)
      | Call_generate a b \<Rightarrow>
          (case sb_rand_default lm p nd a b (sb_rng_state p) of
             (r, st) \<Rightarrow> (Generated r, p\<lparr>sb_rng_state := st\<rparr>)))"

text \<open>
  \<^verbatim>\<open>sb_rng_state\<close> is declared \<^verbatim>\<open>TLS\<close>: every thread has its own, while the statics and
  the generator of \<^verbatim>\<open>random()\<close> are shared. A run is a sequence of calls, each made by a
  thread, in the order in which they take effect. It yields, call by call, the calling
  thread, its \<^verbatim>\<open>sb_rng_state\<close> after the call, and what the call returned.
\<close>

type_synonym thread = nat

definition as_thread :: "thread \<Rightarrow> (thread \<Rightarrow> rng_state) \<Rightarrow> process \<Rightarrow> process" where
  "as_thread t tls p = p\<lparr>sb_rng_state := tls t\<rparr>"

fun run_threads ::
  "libm \<Rightarrow> options \<Rightarrow> (rng_state \<Rightarrow> double \<times> rng_state) \<Rightarrow> process \<Rightarrow>
     (thread \<Rightarrow> rng_state) \<Rightarrow> (thread \<times> call) list \<Rightarrow> (thread \<times> rng_state \<times> outcome) list" where
  "run_threads lm opts nd p tls [] = []"
| "run_threads lm opts nd p tls ((t, c) # cs) =
     (case step lm opts nd c (as_thread t tls p) of
        (out, p') \<Rightarrow>
          (t, sb_rng_state p', out) #
            run_threads lm opts nd p' (tls(t := sb_rng_state p')) cs)"



section \<open>The formulas of the specification\<close>

text \<open>
  The closed forms that the specification gives for the uniform distribution and for the hot
  branch of the special distribution, over the rationals, with \<open>P\<close> the special
  percentage.
\<close>

definition uniform_formula :: "u32 \<Rightarrow> u32 \<Rightarrow> rat \<Rightarrow> int" where
  "uniform_formula a b u = uint a + \<lfloor>u * of_int (uint b - uint a + 1)\<rfloor>"

definition special_hot_offset :: "nat \<Rightarrow> u32 \<Rightarrow> u32 \<Rightarrow> rat \<Rightarrow> rat" where
  "special_hot_offset P a b rnd =
     (let w = (of_int (uint b - uint a) :: rat)
      in rnd * (w * of_nat P / 100 + 1) + w / 2 - w * of_nat P / 200)"

definition special_hot_formula :: "nat \<Rightarrow> u32 \<Rightarrow> u32 \<Rightarrow> rat \<Rightarrow> int" where
  "special_hot_formula P a b rnd =
     (let w = (of_int (uint b - uint a) :: rat)
      in uint a + \<lfloor>rnd * (w * of_nat P / 100 + 1) + w / 2 - w * of_nat P / 200\<rfloor>)"

text \<open>
  The closed form for the Pareto distribution, over the reals, with \<open>H\<close> the shape
  parameter.
\<close>

definition pareto_formula :: "u32 \<Rightarrow> u32 \<Rightarrow> rat \<Rightarrow> rat \<Rightarrow> int" where
  "pareto_formula a b u H =
     uint a + \<lfloor>real_of_int (uint b - uint a + 1) *
                 (real_of_rat u powr (ln (real_of_rat H) / ln (1 - real_of_rat H)))\<rfloor>"

text \<open>
  The hot branch computes without rounding when the two pre-computed percentages and every
  intermediate result are doubles.
\<close>

definition hot_path_exact :: "nat \<Rightarrow> rat \<Rightarrow> rat \<Rightarrow> bool" where
  "hot_path_exact P t rnd =
     (representable (of_nat P / 100) \<and> representable (of_nat P / 200) \<and>
      representable (t * (of_nat P / 100)) \<and> representable (t * (of_nat P / 100) + 1) \<and>
      representable (rnd * (t * (of_nat P / 100) + 1)) \<and>
      representable (t / 2) \<and> representable (t * (of_nat P / 200)) \<and>
      representable (t / 2 - t * (of_nat P / 200)) \<and>
      representable (rnd * (t * (of_nat P / 100) + 1) + (t / 2 - t * (of_nat P / 200))))"

section \<open>Concrete configurations and generators\<close>

text \<open>
  The defaults of \<^verbatim>\<open>rand_args\<close>; \<open>h\<close> is the value to which the option resolver converts
  the default \<^verbatim>\<open>"0.2"\<close> of \<^verbatim>\<open>rand-pareto-h\<close>.
\<close>

definition default_options :: "double \<Rightarrow> options" where
  "default_options h =
     \<lparr>opt_rand_type = ''special'', opt_rand_spec_iter = 12, opt_rand_spec_pct = 1,
      opt_rand_spec_res = 75, opt_rand_seed = 0, opt_rand_pareto_h = h\<rparr>"

text \<open>A C library in which \<^verbatim>\<open>log\<close> and \<^verbatim>\<open>pow\<close> never return a number.\<close>

definition no_libm :: libm where
  "no_libm = \<lparr>lm_log = (\<lambda>x. NaN), lm_pow = (\<lambda>x y. NaN)\<rparr>"

definition zero_entropy :: "nat \<Rightarrow> u64" where
  "zero_entropy i = 0"

definition some_entropy :: "nat \<Rightarrow> u64" where
  "some_entropy i = (if i = 2 then 5 else 0)"

text \<open>
  The process after \<^verbatim>\<open>sb_rand_init\<close> with the default options, taking the double
  nearest to \<open>0.2\<close> for \<^verbatim>\<open>rand-pareto-h\<close>, which only the Pareto distribution reads.
\<close>

definition default_process :: process where
  "default_process =
     snd (sb_rand_init no_libm (default_options (fl (1 / 5))) (startup some_entropy))"

text \<open>The same with a special percentage of 50, so that the percentages are doubles.\<close>

definition half_band_process :: process where
  "half_band_process =
     snd (sb_rand_init no_libm ((default_options (fl (1 / 5)))\<lparr>opt_rand_spec_pct := 50\<rparr>)
            (startup some_entropy))"

text \<open>
  Generators for concrete runs. Their state is the number of draws made so far.
  \<open>draws_cold\<close> returns \<open>1/8\<close> and then \<open>3/4\<close> for ever; \<open>draws_const u\<close> returns \<open>u\<close>
  for ever.
\<close>

definition draws_cold :: "nat \<Rightarrow> double \<times> nat" where
  "draws_cold k = (if k = 0 then 1 / 8 else 3 / 4, Suc k)"

definition draws_const :: "double \<Rightarrow> nat \<Rightarrow> double \<times> nat" where
  "draws_const u k = (u, Suc k)"

text \<open>A generator on \<^verbatim>\<open>sb_rng_state\<close> that returns \<open>1/2\<close> and increments the first word.\<close>

definition step_half :: "rng_state \<Rightarrow> double \<times> rng_state" where
  "step_half st = (1 / 2, (fst st + 1, snd st))"

text \<open>
  The defaults with \<^verbatim>\<open>rand-seed\<close> set to 42, and the thread-local states of a process in
  which no thread has run yet: thread-local storage starts as zero.
\<close>

definition seeded_options :: options where
  "seeded_options = (default_options (fl (1 / 5)))\<lparr>opt_rand_seed := 42\<rparr>"

definition fresh_tls :: "thread \<Rightarrow> rng_state" where
  "fresh_tls t = (0, 0)"


text \<open>
  The process after \<^verbatim>\<open>sb_rand_init\<close> with \<^verbatim>\<open>rand-type\<close> \<open>uniform\<close>, and options that
  misspell the name.
\<close>

definition uniform_process :: process where
  "uniform_process =
     snd (sb_rand_init no_libm ((default_options (fl (1 / 5)))\<lparr>opt_rand_type := ''uniform''\<rparr>)
            (startup some_entropy))"

definition misspelt_options :: options where
  "misspelt_options = (default_options (fl (1 / 5)))\<lparr>opt_rand_type := ''Uniform''\<rparr>"

text \<open>
  A run of the Pareto distribution with \<^verbatim>\<open>rand-pareto-h\<close> \<open>0.9\<close>. \<open>sample_libm\<close> holds
  the values of \<^verbatim>\<open>log\<close> and \<^verbatim>\<open>pow\<close> at the arguments that occur in it: the doubles nearest
  to \<open>ln 0.9\<close>, to \<open>ln (1 - 0.9)\<close> and to \<open>(1 - 2 ^ - 52) ^ 0.0457\<dots>\<close>, which is \<open>1\<close>.
\<close>

definition sample_libm :: libm where
  "sample_libm =
     \<lparr>lm_log = (\<lambda>x. if x = fl (9 / 10) then Finite (- 1898006316224599 / 2 ^ 54)
                     else if x = fsub 1 (fl (9 / 10)) then Finite (- 2592480341699211 / 2 ^ 50)
                     else NaN),
      lm_pow = (\<lambda>u p. if u = 1 - 1 / 2 ^ 52 \<and> p = Finite (3297174679015447 / 2 ^ 56)
                       then Finite 1 else NaN)\<rparr>"

definition pareto_process :: process where
  "pareto_process =
     snd (sb_rand_init sample_libm ((default_options (fl (9 / 10)))\<lparr>opt_rand_type := ''pareto''\<rparr>)
            (startup some_entropy))"

section \<open>Properties of the rounding function\<close>

lemma bit_length_pos: "0 < n \<Longrightarrow> 0 < bit_length n"
  by (subst bit_length.simps) simp

lemma bit_length_lower: "0 < n \<Longrightarrow> 2 ^ (bit_length n - 1) \<le> n"
proof (induction n rule: bit_length.induct)
  case (1 n)
  show ?case
  proof (cases "n div 2 \<le> 0")
    case True
    then have "n = 1" using "1.prems" by linarith
    then show ?thesis
      by (subst bit_length.simps, subst bit_length.simps) simp
  next
    case False
    then have pos: "0 < n div 2" by simp
    have ih: "2 ^ (bit_length (n div 2) - 1) \<le> n div 2"
      using "1.IH" "1.prems" pos by simp
    have bl: "bit_length n = Suc (bit_length (n div 2))"
      using "1.prems" by (subst bit_length.simps) simp
    have "bit_length (n div 2) = Suc (bit_length (n div 2) - 1)"
      using bit_length_pos [OF pos] by simp
    then have "(2::int) ^ (bit_length n - 1) = 2 * 2 ^ (bit_length (n div 2) - 1)"
      using bl by (metis diff_Suc_1 power_Suc)
    also have "\<dots> \<le> 2 * (n div 2)" using ih by simp
    also have "\<dots> \<le> n" by simp
    finally show ?thesis .
  qed
qed

lemma bit_length_upper: "0 \<le> n \<Longrightarrow> n < 2 ^ bit_length n"
proof (induction n rule: bit_length.induct)
  case (1 n)
  show ?case
  proof (cases "n \<le> 0")
    case True
    then show ?thesis using "1.prems" by (subst bit_length.simps) simp
  next
    case False
    then have ih: "n div 2 < 2 ^ bit_length (n div 2)"
      using "1.IH" by simp
    have bl: "bit_length n = Suc (bit_length (n div 2))"
      using False by (subst bit_length.simps) simp
    have "n < 2 * (n div 2 + 1)" by presburger
    also have "\<dots> \<le> 2 * 2 ^ bit_length (n div 2)" using ih by simp
    finally show ?thesis by (simp add: bl)
  qed
qed

lemma ilog2_bounds:
  assumes "0 < x"
  shows "2 powi ilog2 x \<le> x" and "x < 2 powi (ilog2 x + 1)"
proof -
  have "2 powi ilog2 x \<le> x \<and> x < 2 powi (ilog2 x + 1)"
  proof (cases "1 \<le> x")
    case True
    define n where "n = \<lfloor>x\<rfloor>"
    have npos: "0 < n" using True by (simp add: n_def)
    have e: "ilog2 x = int (bit_length n) - 1"
      using True by (simp add: ilog2_def n_def)
    have blpos: "0 < bit_length n" using bit_length_pos [OF npos] .
    have p1: "(2::rat) powi ilog2 x = 2 ^ (bit_length n - 1)"
      using e blpos by (simp add: power_int_def nat_diff_distrib')
    have p2: "(2::rat) powi (ilog2 x + 1) = 2 ^ bit_length n"
      using e by (simp add: power_int_def)
    have "rat_of_int (2 ^ (bit_length n - 1)) \<le> rat_of_int n"
      using bit_length_lower [OF npos] by (simp only: of_int_le_iff)
    moreover have "rat_of_int n \<le> x" unfolding n_def by (rule of_int_floor_le)
    ultimately have "rat_of_int (2 ^ (bit_length n - 1)) \<le> x" by (rule order_trans)
    then have lo: "2 ^ (bit_length n - 1) \<le> x" by simp
    have "n + 1 \<le> 2 ^ bit_length n"
      using bit_length_upper [of n] npos by simp
    then have "rat_of_int (n + 1) \<le> rat_of_int (2 ^ bit_length n)"
      by (simp only: of_int_le_iff)
    moreover have "x < rat_of_int (n + 1)"
      unfolding n_def by linarith
    ultimately have "x < rat_of_int (2 ^ bit_length n)" by (rule less_le_trans [rotated])
    then have hi: "x < 2 ^ bit_length n" by simp
    show ?thesis using lo hi p1 p2 by simp
  next
    case False
    define c where "c = \<lceil>1 / x\<rceil>"
    define k where "k = bit_length (c - 1)"
    have y1: "1 < 1 / x" using False assms by simp
    have c2: "2 \<le> c" unfolding c_def using y1 by linarith
    have e: "ilog2 x = - int k"
      using False by (simp add: ilog2_def k_def c_def)
    have kpos: "0 < k" unfolding k_def using c2 by (intro bit_length_pos) simp
    have p1: "(2::rat) powi ilog2 x = 1 / 2 ^ k"
      using e by (simp add: power_int_minus_divide)
    have p2: "(2::rat) powi (ilog2 x + 1) = 1 / 2 ^ (k - 1)"
    proof -
      have "ilog2 x + 1 = - int (k - 1)" using e kpos by simp
      then show ?thesis by (simp only: power_int_minus_divide power_int_of_nat)
    qed
    have "c - 1 < 2 ^ k" unfolding k_def using c2 by (intro bit_length_upper) simp
    then have "c \<le> 2 ^ k" by simp
    then have "rat_of_int c \<le> rat_of_int (2 ^ k)" by (simp only: of_int_le_iff)
    moreover have "1 / x \<le> rat_of_int c" unfolding c_def by (rule le_of_int_ceiling)
    ultimately have "1 / x \<le> rat_of_int (2 ^ k)" by (rule order_trans [rotated])
    then have "1 / x \<le> 2 ^ k" by simp
    then have lo: "1 / 2 ^ k \<le> x"
      using assms by (simp add: field_simps)
    have "2 ^ (k - 1) \<le> c - 1"
      unfolding k_def using c2 by (intro bit_length_lower) simp
    then have "rat_of_int (2 ^ (k - 1)) \<le> rat_of_int (c - 1)" by (simp only: of_int_le_iff)
    moreover have "rat_of_int (c - 1) < 1 / x" unfolding c_def by linarith
    ultimately have "rat_of_int (2 ^ (k - 1)) < 1 / x" by (rule le_less_trans)
    then have "2 ^ (k - 1) < 1 / x" by simp
    then have hi: "x < 1 / 2 ^ (k - 1)"
      using assms by (simp add: field_simps)
    show ?thesis using lo hi p1 p2 by simp
  qed
  then show "2 powi ilog2 x \<le> x" and "x < 2 powi (ilog2 x + 1)" by simp_all
qed

lemma round_ties_even_bounds:
  "\<lfloor>x\<rfloor> \<le> round_ties_even x" "round_ties_even x \<le> \<lfloor>x\<rfloor> + 1"
  by (simp_all add: round_ties_even_def Let_def)

lemma round_ties_even_error: "\<bar>of_int (round_ties_even y) - y\<bar> \<le> 1 / 2"
proof -
  have "0 \<le> y - of_int \<lfloor>y\<rfloor>" "y - of_int \<lfloor>y\<rfloor> < 1" by linarith+
  then show ?thesis
    by (auto simp add: round_ties_even_def Let_def abs_le_iff)
qed

lemma round_ties_even_of_int: "round_ties_even (of_int k) = k"
  by (simp add: round_ties_even_def)

lemma round_ties_even_minus: "round_ties_even (- y) = - round_ties_even y"
proof (cases "y \<in> \<int>")
  case True
  then obtain k where "y = of_int k" by (auto elim: Ints_cases)
  then show ?thesis
    using round_ties_even_of_int [of k] round_ties_even_of_int [of "- k"] by simp
next
  case False
  define f where "f = \<lfloor>y\<rfloor>"
  have ne: "of_int f \<noteq> y" using False by (metis Ints_of_int)
  then have fl: "\<lfloor>- y\<rfloor> = - f - 1"
    by (simp add: f_def floor_minus ceiling_altdef)
  have r: "0 < y - of_int f" "y - of_int f < 1"
  proof -
    have "of_int f \<le> y" unfolding f_def by simp
    with ne show "0 < y - of_int f" by simp
    show "y - of_int f < 1" unfolding f_def by linarith
  qed
  have ev: "even (- f - 1) \<longleftrightarrow> odd f" by simp
  show ?thesis
    using r unfolding round_ties_even_def Let_def fl f_def [symmetric] ev
    by (auto simp add: field_simps)
qed

lemma quantum_pos: "0 < quantum x"
  by (simp add: quantum_def)

lemma quantum_minus: "quantum (- x) = quantum x"
  by (simp add: quantum_def)

lemma quantum_le:
  assumes "0 < x"
  shows "quantum x \<le> max x 1"
proof (cases "1 \<le> x")
  case True
  have fpos: "0 < \<lfloor>x\<rfloor>" using True by simp
  have e: "ilog2 \<bar>x\<bar> = int (bit_length \<lfloor>x\<rfloor>) - 1"
    using True by (simp add: ilog2_def)
  have e0: "0 \<le> ilog2 \<bar>x\<bar>"
    using e bit_length_pos [OF fpos] by simp
  have "quantum x = 2 powi (ilog2 \<bar>x\<bar> - 52)"
    using e0 by (simp add: quantum_def max_def)
  also have "\<dots> \<le> 2 powi (ilog2 \<bar>x\<bar>)"
    by (rule power_int_increasing) simp_all
  also have "\<dots> = 2 ^ (bit_length \<lfloor>x\<rfloor> - 1)"
    using e bit_length_pos [OF fpos] by (simp add: power_int_def nat_diff_distrib')
  also have "\<dots> \<le> of_int \<lfloor>x\<rfloor>"
  proof -
    have "rat_of_int (2 ^ (bit_length \<lfloor>x\<rfloor> - 1)) \<le> rat_of_int \<lfloor>x\<rfloor>"
      using bit_length_lower [OF fpos] by (simp only: of_int_le_iff)
    then show ?thesis by simp
  qed
  also have "\<dots> \<le> x" by simp
  finally show ?thesis by simp
next
  case False
  have "ilog2 \<bar>x\<bar> \<le> 0"
    using False assms by (simp add: ilog2_def)
  then have "max (ilog2 \<bar>x\<bar>) (- 1022) - 52 \<le> 0" by simp
  then have "(2::rat) powi (max (ilog2 \<bar>x\<bar>) (- 1022) - 52) \<le> 2 powi 0"
    by (intro power_int_increasing) simp_all
  then show ?thesis by (simp add: quantum_def)
qed

text \<open>
  \<open>fl\<close> rounds to a nearest multiple of the quantum, symmetrically in the sign, and leaves
  integers below \<open>2 ^ 53\<close> as they are; in particular every \<^verbatim>\<open>uint32_t\<close> is a double.
\<close>

lemma fl_error: "\<bar>fl x - x\<bar> \<le> quantum x / 2"
proof (cases "x = 0")
  case True
  then show ?thesis using quantum_pos [of 0] by (simp add: fl_def)
next
  case False
  define q where "q = quantum x"
  have qpos: "0 < q" unfolding q_def by (rule quantum_pos)
  have "fl x - x = (of_int (round_ties_even (x / q)) - x / q) * q"
    using False qpos by (simp add: fl_def q_def field_simps)
  then have "\<bar>fl x - x\<bar> = \<bar>of_int (round_ties_even (x / q)) - x / q\<bar> * q"
    using qpos by (simp add: abs_mult)
  also have "\<dots> \<le> 1 / 2 * q"
    using round_ties_even_error [of "x / q"] qpos by (intro mult_right_mono) simp_all
  finally show ?thesis by (simp add: q_def)
qed

lemma fl_minus: "fl (- x) = - fl x"
  by (simp add: fl_def quantum_minus round_ties_even_minus)

lemma fl_of_int:
  assumes "\<bar>m\<bar> < 2 ^ 53"
  shows "fl (of_int m) = of_int m"
proof (cases "m = 0")
  case True
  then show ?thesis by (simp add: fl_def)
next
  case False
  define n where "n = \<bar>m\<bar>"
  have npos: "0 < n" using False by (simp add: n_def)
  have blpos: "0 < bit_length n" using bit_length_pos [OF npos] .
  have "(2::int) ^ (bit_length n - 1) < 2 ^ 53"
    using bit_length_lower [OF npos] assms by (simp add: n_def)
  then have "bit_length n - 1 < 53" by (simp only: power_strict_increasing_iff [of 2])
  then have bl: "bit_length n \<le> 53" by simp
  define k where "k = 53 - bit_length n"
  have ax: "\<bar>rat_of_int m\<bar> = rat_of_int n" by (simp add: n_def)
  have "1 \<le> rat_of_int n" using npos by simp
  then have e: "ilog2 \<bar>rat_of_int m\<bar> = int (bit_length n) - 1"
    by (simp add: ilog2_def ax)
  have "max (ilog2 \<bar>rat_of_int m\<bar>) (- 1022) - 52 = - int k"
    using e blpos bl by (simp add: k_def)
  then have q: "quantum (rat_of_int m) = 1 / 2 ^ k"
    by (simp only: quantum_def power_int_minus_divide power_int_of_nat)
  have "rat_of_int m / quantum (rat_of_int m) = rat_of_int (m * 2 ^ k)"
    by (simp add: q)
  then have "round_ties_even (rat_of_int m / quantum (rat_of_int m)) = m * 2 ^ k"
    by (simp only: round_ties_even_of_int)
  then show ?thesis
    using False by (simp add: fl_def q)
qed

lemma representable_of_u32: "representable (of_u32 w)"
proof -
  have "uint w < 2 ^ 32" using uint_lt2p [of w] by simp
  then have "\<bar>uint w\<bar> < 2 ^ 53" by simp
  then have "fl (rat_of_int (uint w)) = rat_of_int (uint w)" by (rule fl_of_int)
  moreover have "of_u32 w = rat_of_int (uint w)" by (simp add: of_u32_def)
  ultimately show ?thesis by (simp only: representable_def)
qed

text \<open>Two coarse bounds, enough to show that a conversion to \<^verbatim>\<open>uint32_t\<close> is defined.\<close>

lemma fl_nonneg:
  assumes "0 \<le> x"
  shows "0 \<le> fl x"
proof (cases "x = 0")
  case True
  then show ?thesis by (simp add: fl_def)
next
  case False
  have "0 \<le> x / quantum x"
    using assms quantum_pos [of x] by simp
  then have "0 \<le> \<lfloor>x / quantum x\<rfloor>" by simp
  then have "0 \<le> round_ties_even (x / quantum x)"
    using round_ties_even_bounds(1) [of "x / quantum x"] by linarith
  then show ?thesis
    using False quantum_pos [of x] by (simp add: fl_def)
qed



text \<open>
  The rounding error relative to the magnitude: at most \<open>2 ^ - 53\<close> of it for a normal
  number.
\<close>

lemma quantum_rel:
  assumes "x \<noteq> 0"
  shows "quantum x \<le> \<bar>x\<bar> / 2 ^ 52 + 1 / 2 ^ 1074"
proof (cases "- 1022 \<le> ilog2 \<bar>x\<bar>")
  case True
  have pos: "0 < \<bar>x\<bar>" using assms by simp
  have "quantum x = 2 powi (ilog2 \<bar>x\<bar> + (- 52))"
    using True by (simp add: quantum_def max_def)
  also have "\<dots> = 2 powi ilog2 \<bar>x\<bar> * 2 powi (- 52)"
    by (rule power_int_add) simp
  also have "\<dots> = 2 powi ilog2 \<bar>x\<bar> / 2 ^ 52"
    by (simp add: power_int_minus_divide)
  also have "\<dots> \<le> \<bar>x\<bar> / 2 ^ 52"
    using ilog2_bounds(1) [OF pos] by (simp add: divide_right_mono)
  finally show ?thesis by simp
next
  case False
  then have "quantum x = 2 powi (- 1074)"
    by (simp add: quantum_def max_def)
  also have "\<dots> = 1 / 2 ^ 1074"
    by (simp only: power_int_minus_divide power_int_numeral)
  finally show ?thesis by simp
qed

lemma fl_close:
  assumes "\<bar>x\<bar> \<le> B" and "1 \<le> B"
  shows "\<bar>fl x - x\<bar> \<le> B / 2 ^ 52"
proof (cases "x = 0")
  case True
  then show ?thesis using assms(2) by (simp add: fl_def)
next
  case False
  have "(1::rat) / 2 ^ 1074 \<le> 1 / 2 ^ 52"
    by (intro divide_left_mono power_increasing) simp_all
  also have "\<dots> \<le> B / 2 ^ 52" using assms(2) by (simp add: divide_right_mono)
  finally have small: "(1::rat) / 2 ^ 1074 \<le> B / 2 ^ 52" .
  have "\<bar>x\<bar> / 2 ^ 52 \<le> B / 2 ^ 52" using assms(1) by (simp add: divide_right_mono)
  then have "quantum x \<le> B / 2 ^ 52 + B / 2 ^ 52"
    using quantum_rel [OF False] small by linarith
  then show ?thesis using fl_error [of x] by linarith
qed

lemma quantum_rel_normal:
  assumes "1 / 4 \<le> \<bar>x\<bar>"
  shows "quantum x \<le> \<bar>x\<bar> / 2 ^ 52"
proof -
  have pos: "0 < \<bar>x\<bar>" using assms by linarith
  have e: "- 1022 \<le> ilog2 \<bar>x\<bar>"
  proof (rule ccontr)
    assume "\<not> - 1022 \<le> ilog2 \<bar>x\<bar>"
    then have "ilog2 \<bar>x\<bar> + 1 \<le> - 2" by simp
    then have "(2::rat) powi (ilog2 \<bar>x\<bar> + 1) \<le> 2 powi (- 2)"
      by (intro power_int_increasing) simp_all
    also have "\<dots> = 1 / 4" by (simp add: power_int_minus_divide)
    finally show False using ilog2_bounds(2) [OF pos] assms by linarith
  qed
  have "quantum x = 2 powi (ilog2 \<bar>x\<bar> + (- 52))"
    using e by (simp add: quantum_def max_def)
  also have "\<dots> = 2 powi ilog2 \<bar>x\<bar> * 2 powi (- 52)"
    by (rule power_int_add) simp
  also have "\<dots> = 2 powi ilog2 \<bar>x\<bar> / 2 ^ 52"
    by (simp add: power_int_minus_divide)
  also have "\<dots> \<le> \<bar>x\<bar> / 2 ^ 52"
    using ilog2_bounds(1) [OF pos] by (simp add: divide_right_mono)
  finally show ?thesis .
qed

text \<open>
  The largest double below \<open>1\<close> is \<open>1 - 2 ^ - 53\<close>, and the product of an integer with a
  double below \<open>1\<close> does not round up to that integer.
\<close>

lemma representable_below_one:
  assumes "representable y" and "y < 1"
  shows "y \<le> 1 - 1 / 2 ^ 53"
proof (cases "y < 1 / 2")
  case True
  then show ?thesis by simp
next
  case False
  then have y: "1 / 2 \<le> y" "0 < y" by simp_all
  have "1 < 1 / y" using y assms(2) by simp
  moreover have "1 / y \<le> 2" using y by (simp add: field_simps)
  ultimately have "\<lceil>1 / y\<rceil> = 2" by (intro ceiling_unique) simp_all
  moreover have "bit_length 1 = Suc 0"
    by (subst bit_length.simps, subst bit_length.simps) simp
  ultimately have "ilog2 \<bar>y\<bar> = - 1"
    using y assms(2) by (simp add: ilog2_def)
  then have "quantum y = 2 powi (- 53)" by (simp add: quantum_def)
  also have "\<dots> = 1 / 2 ^ 53" by (simp only: power_int_minus_divide power_int_numeral)
  finally have q: "quantum y = 1 / 2 ^ 53" .
  define r where "r = round_ties_even (y / quantum y)"
  have "fl y = of_int r * (1 / 2 ^ 53)"
    using y by (simp add: fl_def r_def q)
  then have yr: "y = of_int r / 2 ^ 53"
    using assms(1) by (simp add: representable_def)
  then have "rat_of_int r < rat_of_int (2 ^ 53)" using assms(2) by (simp add: field_simps)
  then have "r < 2 ^ 53" by (simp only: of_int_less_iff)
  then have "r \<le> 2 ^ 53 - 1" by simp
  then have "rat_of_int r \<le> rat_of_int (2 ^ 53 - 1)" by (simp only: of_int_le_iff)
  then have "rat_of_int r \<le> 2 ^ 53 - 1" by simp
  then have "rat_of_int r / 2 ^ 53 \<le> (2 ^ 53 - 1) / 2 ^ 53" by (simp add: divide_right_mono)
  then show ?thesis unfolding yr by (simp add: field_simps)
qed

lemma fl_mul_below:
  assumes y: "representable y" "0 \<le> y" "y < 1" and n: "1 \<le> n"
  shows "fl (n * y) < n"
proof -
  define v where "v = n * y"
  have v0: "0 \<le> v" using y(2) n by (simp add: v_def)
  show ?thesis
  proof (cases "v \<le> 1 / 4")
    case True
    show ?thesis
    proof (cases "v = 0")
      case True
      then show ?thesis using n by (simp add: v_def [symmetric] fl_def)
    next
      case False
      then have "0 < v" using v0 by simp
      then have "quantum v \<le> max v 1" by (rule quantum_le)
      then have "quantum v \<le> 1" using True by simp
      then have "fl v < 1" using fl_error [of v] True by linarith
      then show ?thesis using n by (simp add: v_def)
    qed
  next
    case False
    then have "1 / 4 \<le> \<bar>v\<bar>" by simp
    then have "quantum v \<le> \<bar>v\<bar> / 2 ^ 52" by (rule quantum_rel_normal)
    then have q: "quantum v / 2 \<le> v / 2 ^ 53" using v0 by simp
    have "n * y \<le> n * (1 - 1 / 2 ^ 53)"
      using representable_below_one [OF y(1) y(3)] n by (intro mult_left_mono) simp_all
    then have v_le: "v \<le> n - n / 2 ^ 53" by (simp add: v_def algebra_simps)
    have "fl v \<le> v + v / 2 ^ 53" using fl_error [of v] q by linarith
    also have "\<dots> \<le> (n - n / 2 ^ 53) + (n - n / 2 ^ 53) / 2 ^ 53"
      using v_le by (intro add_mono divide_right_mono) simp_all
    also have "\<dots> = n - n / 2 ^ 106" by (simp add: field_simps)
    also have "\<dots> < n" using n by simp
    finally show ?thesis by (simp add: v_def)
  qed
qed

section \<open>Evaluating double arithmetic on numerals\<close>

lemma floor_rat_numeral:
  "\<lfloor>(numeral a :: rat) / numeral b\<rfloor> = numeral a div numeral b"
  "\<lfloor>1 / (numeral b :: rat)\<rfloor> = 1 div numeral b"
  by (metis floor_divide_of_int_eq of_int_numeral of_int_1)+

lemma ceiling_rat_numeral:
  "\<lceil>(numeral a :: rat) / numeral b\<rceil> = - (- numeral a div numeral b)"
  "\<lceil>1 / (numeral b :: rat)\<rceil> = - (- 1 div numeral b)"
  unfolding ceiling_def
  by (metis divide_minus_left floor_divide_of_int_eq of_int_neg_numeral of_int_numeral
      of_int_1 of_int_minus)+

lemma bit_length_numeral:
  "bit_length 0 = 0"
  "bit_length 1 = Suc 0"
  "bit_length (numeral k) = Suc (bit_length (numeral k div 2))"
  by (subst bit_length.simps, simp)+

lemma fl_numeral:
  "fl 0 = 0"
  "fl 1 = 1"
  "fl (numeral a) =
     of_int (round_ties_even (numeral a / quantum (numeral a))) * quantum (numeral a)"
  "fl (numeral a / numeral b) =
     of_int (round_ties_even (numeral a / numeral b / quantum (numeral a / numeral b))) *
       quantum (numeral a / numeral b)"
  "fl (1 / numeral b) =
     of_int (round_ties_even (1 / numeral b / quantum (1 / numeral b))) * quantum (1 / numeral b)"
  by (simp_all add: fl_def quantum_def ilog2_def round_ties_even_def bit_length_numeral)

lemmas fp_eval = fl_numeral quantum_def ilog2_def round_ties_even_def Let_def
  bit_length_numeral floor_rat_numeral ceiling_rat_numeral fadd_def fsub_def fmul_def fdiv_def
  of_u32_def to_u32_def add_u32_result_def

lemma loop_steps:
  "i < n \<Longrightarrow> special_loop nd n i sm s =
     special_loop nd n (Suc i) (fadd sm (fst (nd s))) (snd (nd s))"
  "\<not> i < n \<Longrightarrow> special_loop nd n i sm s = (sm, s)"
  "i < n \<Longrightarrow> gaussian_loop nd t n i sm s =
     gaussian_loop nd t n (Suc i) (fadd sm (fmul (fst (nd s)) t)) (snd (nd s))"
  "\<not> i < n \<Longrightarrow> gaussian_loop nd t n i sm s = (sm, s)"
  by (subst special_loop.simps gaussian_loop.simps, simp)+

text \<open>
  The doubles nearest to \<open>1/10\<close> and \<open>1/3\<close>, and two ties above \<open>2 ^ 53\<close>, where the
  spacing of the doubles is 2.
\<close>

lemma fl_known_values:
  "fl (1 / 10) = 3602879701896397 / 2 ^ 55"
  "fl (1 / 3) = 6004799503160661 / 2 ^ 54"
  "fl (2 ^ 53 + 1) = 2 ^ 53"
  "fl (2 ^ 53 + 3) = 2 ^ 53 + 4"
  by (simp_all add: fp_eval)

section \<open>The unique-identifier counter\<close>

lemma uint_range_size:
  fixes a b :: u32
  assumes "a \<le> b" and "uint b - uint a + 1 < 2 ^ 32"
  shows "uint (b - a + 1) = uint b - uint a + 1"
proof -
  have ab: "uint a \<le> uint b" using assms(1) by (simp add: word_le_def)
  have 1: "uint (b - a) = uint b - uint a"
    using ab by (simp add: uint_sub_if')
  have "uint (b - a + 1) = (uint (b - a) + 1) mod 2 ^ 32"
    by (simp add: uint_word_ariths)
  also have "\<dots> = uint b - uint a + 1"
    using assms(2) ab by (simp add: 1)
  finally show ?thesis .
qed

text \<open>
  Claim C4. For a range \<open>a \<le> b\<close> whose size \<open>b - a + 1\<close> fits in 32 bits,
  \<^verbatim>\<open>sb_rand_uniq\<close> returns \<open>a + (c mod (b - a + 1))\<close>, with \<open>c\<close> the counter before the
  call; the value lies in \<open>[a, b]\<close>, and the counter afterwards is \<open>c + 2147483647\<close>
  modulo \<open>2 ^ 64\<close>.
\<close>

theorem sb_rand_uniq_correct:
  fixes a b :: u32
  assumes "a \<le> b" and "uint b - uint a + 1 < 2 ^ 32"
  shows "\<exists>r g'. sb_rand_uniq a b g = (Some r, g') \<and>
           uint r = uint a + uint (rnd_seed g) mod (uint b - uint a + 1) \<and>
           a \<le> r \<and> r \<le> b \<and>
           uint (rnd_seed g') = (uint (rnd_seed g) + 2147483647) mod 2 ^ 64"
proof -
  define n :: u64 where "n = ucast (b - a + 1)"
  define res :: u32 where "res = ucast (rnd_seed g mod n)"
  have ab: "uint a \<le> uint b" using assms(1) by (simp add: word_le_def)
  have un: "uint n = uint b - uint a + 1"
    unfolding n_def using uint_range_size [OF assms] by (simp add: uint_up_ucast is_up)
  have npos: "0 < uint n" using un ab by simp
  have n0: "n \<noteq> 0" using npos by auto
  have um: "uint (rnd_seed g mod n) = uint (rnd_seed g) mod uint n"
    by (simp add: uint_mod)
  have lt: "uint (rnd_seed g) mod uint n < uint n"
    using npos by simp
  have ures: "uint res = uint (rnd_seed g) mod uint n"
  proof -
    have "uint res = uint (rnd_seed g mod n) mod 2 ^ 32"
      unfolding res_def by (simp only: ucast_eq uint_word_of_int) simp
    also have "\<dots> = uint (rnd_seed g mod n)"
      using lt un assms(2) um npos by (simp add: mod_pos_pos_trivial)
    finally show ?thesis using um by simp
  qed
  have ge0: "0 \<le> uint res" by simp
  have sum_le: "uint res + uint a \<le> uint b"
    using ures lt un by simp
  have bb: "uint b < 2 ^ 32" using uint_lt2p [of b] by simp
  have ur: "uint (res + a) = uint a + uint res"
  proof -
    have "uint (res + a) = (uint res + uint a) mod 2 ^ 32"
      by (simp add: uint_word_ariths)
    also have "\<dots> = uint res + uint a"
      using sum_le bb ge0 by simp
    finally show ?thesis by simp
  qed
  have eq: "sb_rand_uniq a b g = (Some (res + a), g\<lparr>rnd_seed := rnd_seed g + LARGE_PRIME\<rparr>)"
    using n0 by (simp add: sb_rand_uniq_def Let_def n_def res_def)
  have cnt: "uint (rnd_seed g + LARGE_PRIME) = (uint (rnd_seed g) + 2147483647) mod 2 ^ 64"
    by (simp add: uint_word_ariths LARGE_PRIME_def)
  have "a \<le> res + a" using ur ge0 by (simp add: word_le_def)
  moreover have "res + a \<le> b" using ur sum_le by (simp add: word_le_def)
  ultimately show ?thesis
    using eq ur ures un cnt by simp
qed

text \<open>Claim C4 at the range \<open>[10, 19]\<close>, after initialisation with the default options.\<close>

theorem sb_rand_uniq_witness:
  "\<exists>r g'. sb_rand_uniq 10 19 default_process = (Some r, g') \<and>
     uint r = 10 + uint (rnd_seed default_process) mod 10 \<and>
     10 \<le> r \<and> r \<le> 19 \<and>
     uint (rnd_seed g') = (uint (rnd_seed default_process) + 2147483647) mod 2 ^ 64"
  using sb_rand_uniq_correct [of 10 19 default_process] by simp

section \<open>Seeding of the thread-local state\<close>

lemma push_bit_32_eq_0:
  fixes y :: u64
  assumes "uint y < 2 ^ 32"
  shows "push_bit 32 y = 0 \<longleftrightarrow> y = 0"
proof -
  have "uint (push_bit 32 y) = (uint y * 2 ^ 32) mod 2 ^ 64"
    by (simp add: push_bit_eq_mult uint_word_ariths)
  also have "\<dots> = uint y * 2 ^ 32"
    using assms by simp
  finally have "uint (push_bit 32 y) = uint y * 2 ^ 32" .
  then have "uint (push_bit 32 y) = 0 \<longleftrightarrow> uint y = 0" by simp
  then show ?thesis by (simp add: uint_0_iff)
qed

lemma mod_UINT32_MAX_less: "uint (x mod UINT32_MAX) < 2 ^ 32"
proof -
  have "uint (x mod UINT32_MAX) = uint x mod 4294967295"
    by (simp add: uint_mod UINT32_MAX_def)
  then show ?thesis by simp
qed

lemma compose_halves_eq_0:
  "push_bit 32 (x mod UINT32_MAX) OR (y mod UINT32_MAX) = 0 \<longleftrightarrow>
     x mod UINT32_MAX = 0 \<and> y mod UINT32_MAX = 0"
  by (simp add: or_eq_0_iff push_bit_32_eq_0 [OF mod_UINT32_MAX_less])

lemma sb_rng_state_thread_init:
  "sb_rng_state (sb_rand_thread_init p) =
     (push_bit 32 (libc_random p 0 mod UINT32_MAX) OR (libc_random p 1 mod UINT32_MAX),
      push_bit 32 (libc_random p 2 mod UINT32_MAX) OR (libc_random p 3 mod UINT32_MAX))"
  by (simp add: sb_rand_thread_init_def random_libc_def numeral_eq_Suc)

text \<open>
  Claim C2, as amended. After \<^verbatim>\<open>sb_rand_thread_init\<close> the two words of
  \<^verbatim>\<open>sb_rng_state\<close> are not both zero exactly when at least one of the four values
  taken from \<^verbatim>\<open>random()\<close> is not a multiple of \<^verbatim>\<open>UINT32_MAX\<close>; for the values that
  \<^verbatim>\<open>random()\<close> returns, which are below \<open>2 ^ 31\<close>, that is when one of them is not zero.
\<close>

theorem thread_init_nonzero_iff:
  "sb_rng_state (sb_rand_thread_init p) \<noteq> (0, 0) \<longleftrightarrow>
     (\<exists>i<4. libc_random p i mod UINT32_MAX \<noteq> 0)"
proof -
  have "(\<exists>i<4::nat. P i) \<longleftrightarrow> P 0 \<or> P 1 \<or> P 2 \<or> P 3" for P
  proof
    assume "\<exists>i<4::nat. P i"
    then obtain i where "i < 4" "P i" by blast
    then have "i = 0 \<or> i = 1 \<or> i = 2 \<or> i = 3" by auto
    with \<open>P i\<close> show "P 0 \<or> P 1 \<or> P 2 \<or> P 3" by auto
  next
    assume d: "P 0 \<or> P 1 \<or> P 2 \<or> P 3"
    have "(0::nat) < 4" "(1::nat) < 4" "(2::nat) < 4" "(3::nat) < 4" by simp_all
    with d show "\<exists>i<4::nat. P i" by blast
  qed
  then show ?thesis
    by (simp add: sb_rng_state_thread_init compose_halves_eq_0)
qed

text \<open>Claim C2, as amended, on an entropy source whose third value is \<open>5\<close>.\<close>

theorem thread_init_nonzero_witness:
  "sb_rng_state (sb_rand_thread_init (startup some_entropy)) \<noteq> (0, 0)"
proof -
  have "libc_random (startup some_entropy) 2 mod UINT32_MAX \<noteq> 0"
    by (simp add: startup_def some_entropy_def UINT32_MAX_def)
  then have "\<exists>i<4. libc_random (startup some_entropy) i mod UINT32_MAX \<noteq> 0"
    by (intro exI [of _ 2]) simp
  then show ?thesis
    using thread_init_nonzero_iff [of "startup some_entropy"] by simp
qed

text \<open>
  Claim C2 as stated, that the two words are never both zero, fails when \<^verbatim>\<open>random()\<close>
  returns zero four times: the seeding has no guard against the all-zero state.
\<close>

theorem thread_init_zero_entropy:
  "sb_rng_state (sb_rand_thread_init (startup zero_entropy)) = (0, 0)"
  by (simp add: sb_rng_state_thread_init startup_def zero_entropy_def UINT32_MAX_def)

section \<open>Properties of initialisation\<close>

lemma sb_rand_thread_init_statics:
  "rand_iter (sb_rand_thread_init p) = rand_iter p"
  "rand_pct (sb_rand_thread_init p) = rand_pct p"
  "rand_res (sb_rand_thread_init p) = rand_res p"
  "rand_iter_mult (sb_rand_thread_init p) = rand_iter_mult p"
  "rand_pct_mult (sb_rand_thread_init p) = rand_pct_mult p"
  "rand_pct_2_mult (sb_rand_thread_init p) = rand_pct_2_mult p"
  "rand_res_mult (sb_rand_thread_init p) = rand_res_mult p"
  "rand_func (sb_rand_thread_init p) = rand_func p"
  "rand_type (sb_rand_thread_init p) = rand_type p"
  "pareto_h (sb_rand_thread_init p) = pareto_h p"
  "pareto_power (sb_rand_thread_init p) = pareto_power p"
  "rnd_seed (sb_rand_thread_init p) = rnd_seed p"
  "sb_rand_seed (sb_rand_thread_init p) = sb_rand_seed p"
  "log_out (sb_rand_thread_init p) = log_out p"
  by (simp_all add: sb_rand_thread_init_def random_libc_def)

lemma sb_rand_init_params:
  assumes "opt_rand_type opts \<in> {''uniform'', ''gaussian'', ''special'', ''pareto''}"
  shows "rand_iter (snd (sb_rand_init lm opts p)) = word_of_int (opt_rand_spec_iter opts)"
    and "rand_iter_mult (snd (sb_rand_init lm opts p)) =
           fdiv 1 (of_u32 (word_of_int (opt_rand_spec_iter opts)))"
    and "rand_pct (snd (sb_rand_init lm opts p)) = word_of_int (opt_rand_spec_pct opts)"
    and "rand_pct_mult (snd (sb_rand_init lm opts p)) =
           fl (of_u32 (word_of_int (opt_rand_spec_pct opts)) / 100)"
    and "rand_pct_2_mult (snd (sb_rand_init lm opts p)) =
           fl (of_u32 (word_of_int (opt_rand_spec_pct opts)) / 200)"
    and "rand_res (snd (sb_rand_init lm opts p)) = word_of_int (opt_rand_spec_res opts)"
    and "rand_res_mult (snd (sb_rand_init lm opts p)) =
           fdiv 100 (fsub 100 (of_u32 (word_of_int (opt_rand_spec_res opts))))"
    and "rnd_seed (snd (sb_rand_init lm opts p)) = LARGE_PRIME"
  using assms
  by (auto simp add: sb_rand_init_def select_distribution_def Let_def
        sb_rand_thread_init_statics)

lemma default_process_params:
  "rand_iter default_process = 12"
  "rand_iter_mult default_process = Some (6004799503160661 / 72057594037927936)"
  "rand_pct default_process = 1"
  "rand_pct_mult default_process = 5764607523034235 / 576460752303423488"
  "rand_pct_2_mult default_process = 5764607523034235 / 1152921504606846976"
  "rand_res_mult default_process = Some 4"
  unfolding default_process_def
  by (simp_all add: sb_rand_init_params default_options_def fp_eval)

lemma half_band_process_params:
  "rand_iter half_band_process = 12"
  "rand_iter_mult half_band_process = Some (6004799503160661 / 72057594037927936)"
  "rand_pct half_band_process = 50"
  "rand_pct_mult half_band_process = 1 / 2"
  "rand_pct_2_mult half_band_process = 1 / 4"
  "rand_res_mult half_band_process = Some 4"
  unfolding half_band_process_def
  by (simp_all add: sb_rand_init_params default_options_def fp_eval)

lemma sb_rand_init_invalid:
  assumes "opt_rand_type opts \<notin> {''uniform'', ''gaussian'', ''special'', ''pareto''}"
  shows "sb_rand_init lm opts p =
           (1, p\<lparr>sb_rand_seed := opt_rand_seed opts,
                  log_out := log_out p @
                    [(LOG_FATAL, ''Invalid random numbers distribution: '' @ opt_rand_type opts @ ''.'')]\<rparr>)"
  using assms by (simp add: sb_rand_init_def select_distribution_def Let_def)

lemma sb_rand_init_valid:
  assumes "opt_rand_type opts \<in> {''uniform'', ''gaussian'', ''special'', ''pareto''}"
  shows "fst (sb_rand_init lm opts p) = 0"
    and "rand_func (snd (sb_rand_init lm opts p)) =
           (if opt_rand_type opts = ''uniform'' then Some Fn_uniform
            else if opt_rand_type opts = ''gaussian'' then Some Fn_gaussian
            else if opt_rand_type opts = ''special'' then Some Fn_special
            else Some Fn_pareto)"
  using assms
  by (auto simp add: sb_rand_init_def select_distribution_def Let_def
        sb_rand_thread_init_statics)

lemma sb_rand_init_pareto_power:
  assumes "opt_rand_type opts \<in> {''uniform'', ''gaussian'', ''special'', ''pareto''}"
  shows "pareto_h (snd (sb_rand_init lm opts p)) = opt_rand_pareto_h opts"
    and "pareto_power (snd (sb_rand_init lm opts p)) =
           compute_pareto_power lm (opt_rand_pareto_h opts)"
  using assms
  by (auto simp add: sb_rand_init_def select_distribution_def Let_def
        sb_rand_thread_init_statics)

text \<open>
  A failed \<^verbatim>\<open>sb_rand_init\<close> has changed the stored seed and the log, which no
  distribution function reads.
\<close>

lemma sb_rand_default_failed_init:
  "sb_rand_default lm (p\<lparr>sb_rand_seed := k, log_out := l\<rparr>) nd a b s =
     sb_rand_default lm p nd a b s"
  by (simp add: sb_rand_default_def sb_rand_gaussian_def
        sb_rand_special_def special_cold_def special_hot_res_def sb_rand_pareto_def Let_def
        split: option.split rand_fn.split prod.split)

text \<open>
  Claim C8, as amended. \<^verbatim>\<open>sb_rand_init\<close> returns a non-zero status exactly when the
  configured \<^verbatim>\<open>rand-type\<close> is none of the four distribution names; it then returns 1,
  has logged one fatal message, and has neither bound \<^verbatim>\<open>rand_func\<close> nor seeded the
  thread: \<^verbatim>\<open>sb_rand_default\<close> behaves after the failed call exactly as it did before.
  For each of the four names \<^verbatim>\<open>sb_rand_init\<close> returns 0 and \<^verbatim>\<open>sb_rand_default\<close> is the
  corresponding function.
\<close>

theorem sb_rand_init_status:
  "(fst (sb_rand_init lm opts p) \<noteq> 0 \<longleftrightarrow>
      opt_rand_type opts \<notin> {''uniform'', ''gaussian'', ''special'', ''pareto''}) \<and>
   (opt_rand_type opts \<notin> {''uniform'', ''gaussian'', ''special'', ''pareto''} \<longrightarrow>
      fst (sb_rand_init lm opts p) = 1 \<and>
      log_out (snd (sb_rand_init lm opts p)) =
        log_out p @
          [(LOG_FATAL, ''Invalid random numbers distribution: '' @ opt_rand_type opts @ ''.'')] \<and>
      rand_func (snd (sb_rand_init lm opts p)) = rand_func p \<and>
      sb_rng_state (snd (sb_rand_init lm opts p)) = sb_rng_state p \<and>
      sb_rand_default lm (snd (sb_rand_init lm opts p)) nd a b s =
        sb_rand_default lm p nd a b s) \<and>
   (opt_rand_type opts = ''uniform'' \<longrightarrow>
      fst (sb_rand_init lm opts p) = 0 \<and>
      rand_func (snd (sb_rand_init lm opts p)) = Some Fn_uniform \<and>
      sb_rand_default lm (snd (sb_rand_init lm opts p)) nd a b s = sb_rand_uniform nd a b s) \<and>
   (opt_rand_type opts = ''gaussian'' \<longrightarrow>
      fst (sb_rand_init lm opts p) = 0 \<and>
      rand_func (snd (sb_rand_init lm opts p)) = Some Fn_gaussian \<and>
      sb_rand_default lm (snd (sb_rand_init lm opts p)) nd a b s =
        sb_rand_gaussian (snd (sb_rand_init lm opts p)) nd a b s) \<and>
   (opt_rand_type opts = ''special'' \<longrightarrow>
      fst (sb_rand_init lm opts p) = 0 \<and>
      rand_func (snd (sb_rand_init lm opts p)) = Some Fn_special \<and>
      sb_rand_default lm (snd (sb_rand_init lm opts p)) nd a b s =
        sb_rand_special (snd (sb_rand_init lm opts p)) nd a b s) \<and>
   (opt_rand_type opts = ''pareto'' \<longrightarrow>
      fst (sb_rand_init lm opts p) = 0 \<and>
      rand_func (snd (sb_rand_init lm opts p)) = Some Fn_pareto \<and>
      sb_rand_default lm (snd (sb_rand_init lm opts p)) nd a b s =
        sb_rand_pareto lm (snd (sb_rand_init lm opts p)) nd a b s)"
proof (cases "opt_rand_type opts \<in> {''uniform'', ''gaussian'', ''special'', ''pareto''}")
  case True
  show ?thesis
    using True sb_rand_init_valid [OF True, of lm p]
    by (auto simp add: sb_rand_default_def)
next
  case False
  show ?thesis
    using False
    by (auto simp add: sb_rand_init_invalid [OF False] sb_rand_default_failed_init)
qed

text \<open>
  Claim C8, as amended, at the default options, which select \<open>special\<close>, and at the
  misspelt name \<open>Uniform\<close>, both from the state of a fresh process, whose dispatcher is
  null.
\<close>

theorem sb_rand_init_status_witness:
  "fst (sb_rand_init no_libm (default_options (fl (1 / 5))) (startup zero_entropy)) = 0 \<and>
   rand_func (snd (sb_rand_init no_libm (default_options (fl (1 / 5))) (startup zero_entropy))) =
     Some Fn_special \<and>
   fst (sb_rand_init no_libm misspelt_options (startup zero_entropy)) = 1 \<and>
   log_out (snd (sb_rand_init no_libm misspelt_options (startup zero_entropy))) =
     [(LOG_FATAL, ''Invalid random numbers distribution: Uniform.'')] \<and>
   rand_func (snd (sb_rand_init no_libm misspelt_options (startup zero_entropy))) = None \<and>
   sb_rand_default no_libm (snd (sb_rand_init no_libm misspelt_options (startup zero_entropy)))
     step_half 1 10 (0, 0) =
   sb_rand_default no_libm (startup zero_entropy) step_half 1 10 (0, 0) \<and>
   sb_rand_default no_libm (startup zero_entropy) step_half 1 10 (0, 0) = (None, (0, 0))"
  using sb_rand_init_status [of no_libm "default_options (fl (1 / 5))" "startup zero_entropy"
      step_half 1 10 "(0, 0)"]
    sb_rand_init_status [of no_libm misspelt_options
      "startup zero_entropy" step_half 1 10 "(0, 0)"]
  by (simp add: default_options_def misspelt_options_def startup_def sb_rand_default_def)

lemma uniform_process_func: "rand_func uniform_process = Some Fn_uniform"
  unfolding uniform_process_def
  by (simp add: sb_rand_init_valid default_options_def)

text \<open>
  Claim C8 as stated, that no generation occurs after a failed initialisation, fails: the
  module has nothing that prevents it. After a successful \<^verbatim>\<open>sb_rand_init\<close> with
  \<open>uniform\<close>, a second \<^verbatim>\<open>sb_rand_init\<close> with the misspelt name fails with status 1, and
  \<^verbatim>\<open>sb_rand_default\<close> still returns a value, here \<open>6\<close> on the range \<open>[1, 10]\<close>.
\<close>

theorem failed_init_then_generate:
  "fst (sb_rand_init no_libm misspelt_options uniform_process) = 1 \<and>
   sb_rand_default no_libm (snd (sb_rand_init no_libm misspelt_options uniform_process))
     (draws_const (1 / 2)) 1 10 0 = (Some 6, 1)"
  by (simp add: sb_rand_init_def select_distribution_def Let_def misspelt_options_def
        default_options_def sb_rand_default_def uniform_process_func sb_rand_uniform_def
        draws_const_def fp_eval cong: prod.case_cong_weak option.case_cong_weak)

section \<open>Reproducible runs\<close>





lemma thread_init_libc:
  "libc_random (sb_rand_thread_init p) = (\<lambda>i. libc_random p (i + 4))"
  by (simp add: sb_rand_thread_init_def random_libc_def numeral_eq_Suc)








text \<open>The first of these two runs, call by call.\<close>

lemma seeded_run_value:
  "run_threads no_libm seeded_options step_half (startup some_entropy) fresh_tls
     [(0, Call_init), (1, Call_thread_init), (1, Call_generate 1 10), (0, Call_generate 1 10)] =
   [(0, (0, 21474836480), Status 0), (1, (0, 0), Seeded),
    (1, (1, 0), Generated (Some 6)), (0, (1, 21474836480), Generated (Some 6))]"
  by (simp add: seeded_options_def default_options_def step_def as_thread_def
        sb_rand_init_def select_distribution_def Let_def sb_rng_state_thread_init
        sb_rand_thread_init_statics thread_init_libc
        sb_rand_default_def sb_rand_special_def special_cold_def special_hot_res_def
        step_half_def startup_def some_entropy_def fresh_tls_def UINT32_MAX_def fp_eval
        cong: option.case_cong_weak)


section \<open>The uniform distribution\<close>

text \<open>
  Claim C5: \<^verbatim>\<open>sb_rand_uniform\<close> should return \<open>a + \<lfloor>u * (b - a + 1)\<rfloor>\<close>, a value in
  \<open>[a, b]\<close>. On the range \<open>a = b = 2 ^ 31\<close> and the draw \<open>u = 1 - 2 ^ - 30\<close>, a double in
  \<open>[0,1)\<close>, it returns \<open>2 ^ 31 + 1\<close>, above \<open>b\<close>; the formula gives \<open>2 ^ 31\<close>. On the range
  \<open>a = b = 4\<close> and the draw \<open>1 - 2 ^ - 52\<close> it returns \<open>5\<close>. The sum
  \<^verbatim>\<open>a + u * (b - a + 1)\<close> is formed in double precision, where it rounds up to the next
  integer, and only then converted.
\<close>

theorem sb_rand_uniform_exceeds_range:
  "representable (1 - 1 / 2 ^ 30) \<and>
   sb_rand_uniform (draws_const (1 - 1 / 2 ^ 30)) 2147483648 2147483648 0 =
     (Some 2147483649, 1) \<and>
   uniform_formula 2147483648 2147483648 (1 - 1 / 2 ^ 30) = 2147483648 \<and>
   representable (1 - 1 / 2 ^ 52) \<and>
   sb_rand_uniform (draws_const (1 - 1 / 2 ^ 52)) 4 4 0 = (Some 5, 1) \<and>
   uniform_formula 4 4 (1 - 1 / 2 ^ 52) = 4"
  by (simp add: representable_def sb_rand_uniform_def draws_const_def uniform_formula_def
        fp_eval cong: prod.case_cong_weak option.case_cong_weak)


text \<open>
  When neither the product nor the sum rounds, the result is the one of the formula and lies
  in the range.
\<close>

lemma sb_rand_uniform_exact:
  assumes ab: "a \<le> b" and size: "uint b - uint a + 1 < 2 ^ 32"
    and draw: "nd s = (u, s')" and u: "0 \<le> u" "u < 1"
    and exact: "representable (u * of_u32 (b - a + 1))"
      "representable (of_u32 a + u * of_u32 (b - a + 1))"
  shows "\<exists>r. sb_rand_uniform nd a b s = (Some r, s') \<and>
           uint r = uniform_formula a b u \<and> a \<le> r \<and> r \<le> b"
proof -
  define w where "w = uint b - uint a + 1"
  define n where "n = of_u32 (b - a + 1)"
  define k where "k = \<lfloor>u * n\<rfloor>"
  have uab: "uint a \<le> uint b" using ab by (simp add: word_le_def)
  have wpos: "0 < w" using uab by (simp add: w_def)
  have "of_u32 (b - a + 1) = rat_of_int (uint (b - a + 1))" by (simp add: of_u32_def)
  then have n_int: "n = rat_of_int w"
    unfolding n_def w_def using uint_range_size [OF ab size] by simp
  have npos: "0 < n" using wpos by (simp only: n_int of_int_0_less_iff)
  have un0: "0 \<le> u * n" using u(1) npos by simp
  have "u * n < 1 * n" using u(2) npos by (rule mult_strict_right_mono)
  then have un_lt: "u * n < rat_of_int w" by (simp add: n_int)
  have k0: "0 \<le> k" unfolding k_def using un0 by simp
  have "k < w" unfolding k_def using un_lt by (simp only: floor_less_iff)
  then have k_le: "k \<le> uint b - uint a" by (simp add: w_def)
  have bb: "uint b < 2 ^ 32" using uint_lt2p [of b] by simp
  define x where "x = of_u32 a + u * n"
  have a_int: "of_u32 a = rat_of_int (uint a)" by (simp add: of_u32_def)
  have fx: "\<lfloor>x\<rfloor> = uint a + k"
    unfolding x_def k_def a_int by (simp only: floor_add_int [symmetric] add.commute)
  have x0: "0 \<le> x"
  proof -
    have "0 \<le> rat_of_int (uint a)" by (simp only: of_int_0_le_iff uint_ge_0)
    then show ?thesis unfolding x_def a_int using un0 by simp
  qed
  have fx32: "uint a + k < 2 ^ 32" using k_le bb by linarith
  have x32: "x < 2 ^ 32"
  proof -
    have "\<lfloor>x\<rfloor> < 2 ^ 32" using fx fx32 by simp
    then have "x < rat_of_int (2 ^ 32)" by (simp only: floor_less_iff)
    then show ?thesis by simp
  qed
  have val: "fadd (of_u32 a) (fmul u n) = x"
    using exact by (simp only: fadd_def fmul_def representable_def n_def x_def)
  define r :: u32 where "r = word_of_int (uint a + k)"
  have conv: "to_u32 x = Some r"
    using x0 x32 fx by (simp add: to_u32_def r_def)
  have ur: "uint r = uint a + k"
  proof -
    have "0 \<le> uint a + k" using k0 by simp
    then show ?thesis
      unfolding r_def uint_word_of_int using fx32 by (simp add: mod_pos_pos_trivial)
  qed
  have call: "sb_rand_uniform nd a b s = (Some r, s')"
    using draw val conv by (simp add: sb_rand_uniform_def n_def)
  have formula: "uniform_formula a b u = uint a + k"
    by (simp only: uniform_formula_def k_def n_int w_def)
  have "a \<le> r" using ur k0 by (simp add: word_le_def)
  moreover have "r \<le> b" using ur k_le by (simp add: word_le_def)
  ultimately show ?thesis using call ur formula by simp
qed

section \<open>The cold branch of the special distribution\<close>

text \<open>
  Claim C1: the cold branch of \<^verbatim>\<open>sb_rand_special\<close> should return what
  \<^verbatim>\<open>sb_rand_gaussian\<close> returns from the same draws. It does not. With the default
  options, on the range \<open>[0, 1]\<close>, a first draw of \<open>1/8\<close> takes the cold branch; when the
  twelve draws that follow are \<open>3/4\<close> each, the cold branch returns \<open>0\<close>, and
  \<^verbatim>\<open>sb_rand_gaussian\<close> run on those same twelve draws returns \<open>1\<close>: the cold branch
  scales by \<open>b - a\<close> where \<^verbatim>\<open>sb_rand_gaussian\<close> scales by \<open>b - a + 1\<close>.
\<close>

theorem special_cold_not_gaussian:
  "representable (1 / 8) \<and> representable (3 / 4) \<and>
   special_cold default_process (of_u32 (1 - 0)) (fst (draws_cold 0)) \<and>
   sb_rand_special default_process draws_cold 0 1 0 = (Some 0, 13) \<and>
   sb_rand_gaussian default_process draws_cold 0 1 (snd (draws_cold 0)) = (Some 1, 13)"
  by (simp add: representable_def sb_rand_special_def sb_rand_gaussian_def special_cold_def
        default_process_params draws_cold_def loop_steps fp_eval
        cong: prod.case_cong_weak option.case_cong_weak)

section \<open>The hot branch of the special distribution\<close>

text \<open>
  Claim C6 as stated, that the hot branch returns exactly \<open>a +\<close> the floor of the remapping
  formula, fails through rounding. With the default options on the range \<open>[0, 100]\<close>, the
  draw \<open>rnd = 3/4 - 2 ^ - 52\<close> takes the hot branch; the formula has the value
  \<open>51 - 2 ^ - 51\<close>, with floor \<open>50\<close>, and the function returns \<open>51\<close>.
\<close>

theorem special_hot_rounds_up:
  "representable (3 / 4 - 1 / 2 ^ 52) \<and>
   \<not> special_cold default_process (of_u32 (100 - 0)) (3 / 4 - 1 / 2 ^ 52) \<and>
   sb_rand_special default_process (draws_const (3 / 4 - 1 / 2 ^ 52)) 0 100 0 =
     (Some 51, 1) \<and>
   special_hot_formula (unat (rand_pct default_process)) 0 100 (3 / 4 - 1 / 2 ^ 52) = 50"
  by (simp add: representable_def sb_rand_special_def special_cold_def special_hot_res_def
        special_hot_formula_def
        default_process_params draws_const_def fp_eval
        cong: prod.case_cong_weak option.case_cong_weak)

lemma of_u32_diff:
  fixes a b :: u32
  assumes "a \<le> b"
  shows "of_u32 (b - a) = of_int (uint b - uint a)"
proof -
  have "uint a \<le> uint b" using assms by (simp add: word_le_def)
  then have "uint (b - a) = uint b - uint a" by (simp add: uint_sub_if')
  moreover have "of_u32 (b - a) = of_int (uint (b - a))"
    by (simp add: of_u32_def)
  ultimately show ?thesis by simp
qed

lemma hot_value_bounds:
  fixes t rnd P :: rat
  assumes "0 \<le> t" and "0 \<le> P" and "P \<le> 100" and "0 \<le> rnd" and "rnd < 1"
  shows "0 \<le> rnd * (t * (P / 100) + 1) + (t / 2 - t * (P / 200))"
    and "rnd * (t * (P / 100) + 1) + (t / 2 - t * (P / 200)) < t + 1"
proof -
  have tp: "0 \<le> t * (P / 100)" using assms by simp
  have tp_le: "t * P \<le> t * 100" using assms by (intro mult_left_mono) simp_all
  have 1: "0 \<le> rnd * (t * (P / 100) + 1)" using assms tp by simp
  have 2: "0 \<le> t / 2 - t * (P / 200)" using tp_le by (simp add: field_simps)
  show "0 \<le> rnd * (t * (P / 100) + 1) + (t / 2 - t * (P / 200))"
    using 1 2 by simp
  have pos: "0 < t * (P / 100) + 1" using tp by linarith
  have "rnd * (t * (P / 100) + 1) < 1 * (t * (P / 100) + 1)"
    using assms(5) pos by (rule mult_strict_right_mono)
  then have 3: "rnd * (t * (P / 100) + 1) < t * (P / 100) + 1" by simp
  have 4: "t * (P / 100) + 1 + (t / 2 - t * (P / 200)) \<le> t + 1"
    using tp_le by (simp add: field_simps)
  show "rnd * (t * (P / 100) + 1) + (t / 2 - t * (P / 200)) < t + 1"
    using 3 4 by linarith
qed

text \<open>
  The hot branch evaluates the remapping formula in double precision, with \<open>P / 100\<close> and
  \<open>P / 200\<close> pre-computed and every one of its nine operations rounded. The value it
  reaches differs from the value of the formula by at most \<open>(t + 2) / 2 ^ 48\<close>, where
  \<open>t = b - a\<close>.
\<close>

lemma scaled_error:
  fixes t c x y :: rat
  assumes "0 \<le> t" and "t \<le> c" and "\<bar>x - y\<bar> \<le> e"
  shows "\<bar>t * x - t * y\<bar> \<le> c * e"
proof -
  have e0: "0 \<le> e" using assms(3) by linarith
  have "\<bar>t * x - t * y\<bar> = t * \<bar>x - y\<bar>"
    using assms(1) by (simp add: abs_mult right_diff_distrib [symmetric])
  also have "\<dots> \<le> c * e"
    using assms e0 by (intro mult_mono) simp_all
  finally show ?thesis .
qed

lemma special_hot_res_close:
  fixes t P rnd :: rat
  assumes t: "0 \<le> t" "t \<le> 2 ^ 32"
    and P: "0 \<le> P" "P \<le> 100"
    and rnd: "0 \<le> rnd" "rnd < 1"
    and mults: "rand_pct_mult g = fl (P / 100)" "rand_pct_2_mult g = fl (P / 200)"
  shows "\<bar>special_hot_res g t rnd - (rnd * (t * (P / 100) + 1) + (t / 2 - t * (P / 200)))\<bar>
           \<le> (t + 2) / 2 ^ 48"
proof -
  define M where "M = t + 2"
  define \<delta> where "\<delta> = M / 2 ^ 52"
  define pm where "pm = fl (P / 100)"
  define pm2 where "pm2 = fl (P / 200)"
  define tpm where "tpm = t * pm"
  define d where "d = fl tpm"
  define d1 where "d1 = fl (d + 1)"
  define rd where "rd = rnd * d1"
  define r1 where "r1 = fl rd"
  define h where "h = fl (t / 2)"
  define tpm2 where "tpm2 = t * pm2"
  define q where "q = fl tpm2"
  define sd where "sd = fl (h - q)"
  define res where "res = fl (r1 + sd)"
  define A where "A = t * (P / 100)"
  define A2 where "A2 = t * (P / 200)"
  define X1 where "X1 = rnd * (A + 1)"
  have val: "special_hot_res g t rnd = res"
    by (simp add: special_hot_res_def Let_def mults fadd_def fsub_def fmul_def res_def sd_def
          q_def h_def r1_def d1_def d_def pm_def pm2_def tpm_def tpm2_def rd_def)
  have M: "M = t + 2" by (rule M_def)
  have big: "\<bar>x\<bar> \<le> 2 * M \<Longrightarrow> \<bar>fl x - x\<bar> \<le> 2 * \<delta>" for x
  proof -
    assume "\<bar>x\<bar> \<le> 2 * M"
    moreover have "1 \<le> 2 * M" using t(1) by (simp add: M_def)
    ultimately have "\<bar>fl x - x\<bar> \<le> 2 * M / 2 ^ 52" by (rule fl_close)
    then show ?thesis by (simp add: \<delta>_def)
  qed
  have "M / 2 ^ 52 \<le> (2 ^ 32 + 2) / 2 ^ 52"
    using t(2) by (intro divide_right_mono) (simp_all add: M_def)
  also have "\<dots> \<le> (1::rat) / 32" by simp
  finally have eps1: "\<delta> \<le> 1 / 32" by (simp only: \<delta>_def)
  have eps0: "0 \<le> \<delta>" using t(1) by (simp add: \<delta>_def M_def)
  have "t * (1 / 2 ^ 52) \<le> M * (1 / 2 ^ 52)"
    using t(1) by (intro mult_right_mono) (simp_all add: M_def)
  then have td: "t * (1 / 2 ^ 52) \<le> \<delta>" by (simp add: \<delta>_def)
  have A0: "0 \<le> A" unfolding A_def using t P by simp
  have "t * (P / 100) \<le> t * 1"
    using t P by (intro mult_left_mono) simp_all
  then have At: "A \<le> t" by (simp add: A_def)
  have A20: "0 \<le> A2" unfolding A2_def using t P by simp
  have "t * (P / 200) \<le> t * 1"
    using t P by (intro mult_left_mono) simp_all
  then have A2t: "A2 \<le> t" by (simp add: A2_def)
  have "\<bar>P / 100\<bar> \<le> 1" using P by simp
  then have "\<bar>pm - P / 100\<bar> \<le> 1 / 2 ^ 52"
    unfolding pm_def using fl_close [of "P / 100" 1] by simp
  then have "\<bar>t * pm - t * (P / 100)\<bar> \<le> t * (1 / 2 ^ 52)"
    using t(1) by (intro scaled_error) simp_all
  then have "\<bar>tpm - A\<bar> \<le> t * (1 / 2 ^ 52)" by (simp only: tpm_def A_def)
  then have e1: "\<bar>tpm - A\<bar> \<le> \<delta>" using td by linarith
  have "\<bar>tpm\<bar> \<le> 2 * M" using e1 A0 At eps1 M by linarith
  then have e2: "\<bar>d - tpm\<bar> \<le> 2 * \<delta>" unfolding d_def by (rule big)
  have "\<bar>d + 1\<bar> \<le> 2 * M" using e1 e2 A0 At eps1 M by linarith
  then have e3: "\<bar>d1 - (d + 1)\<bar> \<le> 2 * \<delta>" unfolding d1_def by (rule big)
  have d1_close: "\<bar>d1 - (A + 1)\<bar> \<le> 5 * \<delta>"
    using e1 e2 e3 by linarith
  have d1_abs: "\<bar>d1\<bar> \<le> 2 * M" using d1_close A0 At eps1 M by linarith
  have "\<bar>rnd * d1\<bar> \<le> 1 * \<bar>d1\<bar>"
    unfolding abs_mult using rnd by (intro mult_right_mono) simp_all
  then have "\<bar>rd\<bar> \<le> 2 * M" using d1_abs by (simp add: rd_def)
  then have e4: "\<bar>r1 - rd\<bar> \<le> 2 * \<delta>" unfolding r1_def by (rule big)
  have "\<bar>rnd * d1 - rnd * (A + 1)\<bar> \<le> 1 * (5 * \<delta>)"
    using rnd d1_close by (intro scaled_error) simp_all
  then have "\<bar>rd - X1\<bar> \<le> 5 * \<delta>" by (simp add: rd_def X1_def)
  then have r1_close: "\<bar>r1 - X1\<bar> \<le> 7 * \<delta>"
    using e4 by linarith
  have x1: "0 \<le> X1" unfolding X1_def using rnd A0 by simp
  have "rnd * (A + 1) \<le> 1 * (A + 1)"
    using rnd A0 by (intro mult_right_mono) simp_all
  then have x1_le: "X1 \<le> t + 1" using At by (simp add: X1_def)
  have "\<bar>t / 2\<bar> \<le> 2 * M" using t(1) M by linarith
  then have e5: "\<bar>h - t / 2\<bar> \<le> 2 * \<delta>" unfolding h_def by (rule big)
  have "\<bar>P / 200\<bar> \<le> 1" using P by simp
  then have "\<bar>pm2 - P / 200\<bar> \<le> 1 / 2 ^ 52"
    unfolding pm2_def using fl_close [of "P / 200" 1] by simp
  then have "\<bar>t * pm2 - t * (P / 200)\<bar> \<le> t * (1 / 2 ^ 52)"
    using t(1) by (intro scaled_error) simp_all
  then have "\<bar>tpm2 - A2\<bar> \<le> t * (1 / 2 ^ 52)" by (simp only: tpm2_def A2_def)
  then have e6: "\<bar>tpm2 - A2\<bar> \<le> \<delta>" using td by linarith
  have "\<bar>tpm2\<bar> \<le> 2 * M" using e6 A20 A2t eps1 M by linarith
  then have e7: "\<bar>q - tpm2\<bar> \<le> 2 * \<delta>" unfolding q_def by (rule big)
  have "\<bar>h - q\<bar> \<le> 2 * M" using e5 e6 e7 t(1) A20 A2t eps1 M by linarith
  then have e8: "\<bar>sd - (h - q)\<bar> \<le> 2 * \<delta>" unfolding sd_def by (rule big)
  have sd_close: "\<bar>sd - (t / 2 - A2)\<bar> \<le> 7 * \<delta>"
    using e5 e6 e7 e8 by linarith
  have "\<bar>r1 + sd\<bar> \<le> 2 * M"
    using r1_close sd_close x1 x1_le t(1) A20 A2t eps1 M by linarith
  then have e9: "\<bar>res - (r1 + sd)\<bar> \<le> 2 * \<delta>" unfolding res_def by (rule big)
  have "\<bar>res - (X1 + (t / 2 - A2))\<bar> \<le> 16 * \<delta>"
    using r1_close sd_close e9 by linarith
  moreover have "16 * \<delta> = (t + 2) / 2 ^ 48" by (simp add: \<delta>_def M_def)
  ultimately have "\<bar>res - (X1 + (t / 2 - A2))\<bar> \<le> (t + 2) / 2 ^ 48" by simp
  then show ?thesis by (simp only: val X1_def A_def A2_def)
qed

lemma special_hot_formula_offset:
  "special_hot_formula P a b rnd = uint a + \<lfloor>special_hot_offset P a b rnd\<rfloor>"
  by (simp add: special_hot_formula_def special_hot_offset_def Let_def)

text \<open>
  Claim C6, as amended. On a range \<open>a \<le> b\<close> with \<open>b - a + 1 < 2 ^ 32\<close> and for
  \<open>P \<le> 100\<close>, with the two pre-computed percentages as \<^verbatim>\<open>sb_rand_init\<close> sets them,
  the hot branch returns \<open>a + k\<close>, in 32-bit arithmetic, where \<open>k\<close> lies
  between the floors of \<open>x - (b - a + 2) / 2 ^ 48\<close> and \<open>x + (b - a + 2) / 2 ^ 48\<close>, with
  \<open>x = rnd * ((b - a) * P / 100 + 1) + (b - a) / 2 - (b - a) * P / 200\<close> the value of the
  remapping formula at the draw \<open>rnd\<close> of the branch test. So \<open>k\<close> is the floor of the
  formula unless the formula comes that close to an integer, and never differs from it by
  more than one.
\<close>

theorem special_hot_close:
  assumes ab: "a \<le> b" and size: "uint b - uint a + 1 < 2 ^ 32"
    and pct: "unat (rand_pct g) \<le> 100"
    and draw: "nd s = (rnd, s1)" and rnd: "0 \<le> rnd" "rnd < 1"
    and hot: "\<not> special_cold g (of_u32 (b - a)) rnd"
    and mults: "rand_pct_mult g = fl (of_u32 (rand_pct g) / 100)"
      "rand_pct_2_mult g = fl (of_u32 (rand_pct g) / 200)"
  shows "\<exists>k. sb_rand_special g nd a b s = (Some (a + word_of_int k), s1) \<and>
           \<lfloor>special_hot_offset (unat (rand_pct g)) a b rnd -
              of_int (uint b - uint a + 2) / 2 ^ 48\<rfloor> \<le> k \<and>
           k \<le> \<lfloor>special_hot_offset (unat (rand_pct g)) a b rnd +
                  of_int (uint b - uint a + 2) / 2 ^ 48\<rfloor> \<and>
           \<bar>uint a + k - special_hot_formula (unat (rand_pct g)) a b rnd\<bar> \<le> 1"
proof -
  define t where "t = of_u32 (b - a)"
  define P :: rat where "P = of_nat (unat (rand_pct g))"
  define X where "X = rnd * (t * (P / 100) + 1) + (t / 2 - t * (P / 200))"
  define w where "w = uint b - uint a"
  define \<eta> where "\<eta> = (t + 2) / 2 ^ 48"
  define res where "res = special_hot_res g t rnd"
  define k where "k = (if 0 \<le> res then \<lfloor>res\<rfloor> else \<lceil>res\<rceil>)"
  have uab: "uint a \<le> uint b" using ab by (simp add: word_le_def)
  have w0: "0 \<le> w" using uab by (simp add: w_def)
  have w32: "w + 2 \<le> 2 ^ 32" using size by (simp add: w_def)
  have t_int: "t = of_int w" unfolding t_def w_def by (rule of_u32_diff [OF ab])
  have t0: "0 \<le> t" using w0 by (simp only: t_int of_int_0_le_iff)
  have "rat_of_int (w + 2) \<le> rat_of_int (2 ^ 32)" using w32 by (simp only: of_int_le_iff)
  then have t32: "t + 2 \<le> 2 ^ 32" by (simp add: t_int)
  then have t_le: "t \<le> 2 ^ 32" by simp
  have P0: "0 \<le> P" by (simp only: P_def of_nat_0_le_iff)
  have P100: "P \<le> 100"
  proof -
    have "(of_nat (unat (rand_pct g)) :: rat) \<le> of_nat 100"
      using pct by (simp only: of_nat_le_iff)
    then show ?thesis by (simp add: P_def)
  qed
  have pm: "rand_pct_mult g = fl (P / 100)" "rand_pct_2_mult g = fl (P / 200)"
    using mults by (simp_all add: of_u32_def P_def)
  have close: "\<bar>res - X\<bar> \<le> \<eta>"
    unfolding res_def X_def \<eta>_def
    by (rule special_hot_res_close [OF t0 t_le P0 P100 rnd pm])
  have X0: "0 \<le> X" and X_lt: "X < t + 1"
    unfolding X_def using hot_value_bounds [OF t0 P0 P100 rnd] by simp_all
  have "\<eta> \<le> 2 ^ 32 / 2 ^ 48"
    unfolding \<eta>_def using t32 by (intro divide_right_mono) simp_all
  then have eta_le: "\<eta> \<le> 1 / 2" by simp
  have eta0: "0 \<le> \<eta>" using t0 by (simp add: \<eta>_def)
  have res_lo: "- 1 < res" using close X0 eta_le by linarith
  have res_hi: "res < 2 ^ 32" using close X_lt eta_le t32 by linarith
  have conv: "to_u32 res = Some (word_of_int k)"
    using res_lo res_hi by (simp add: to_u32_def k_def)
  have call: "sb_rand_special g nd a b s = (Some (a + word_of_int k), s1)"
    using hot draw conv
    by (simp add: sb_rand_special_def Let_def add_u32_result_def t_def res_def)
  have offset: "special_hot_offset (unat (rand_pct g)) a b rnd = X"
  proof -
    have "special_hot_offset (unat (rand_pct g)) a b rnd =
            rnd * (of_int w * P / 100 + 1) + of_int w / 2 - of_int w * P / 200"
      by (simp only: special_hot_offset_def Let_def w_def P_def)
    also have "\<dots> = X"
      by (simp add: X_def t_int algebra_simps)
    finally show ?thesis .
  qed
  have eta: "of_int (uint b - uint a + 2) / 2 ^ 48 = \<eta>"
    by (simp add: \<eta>_def t_int w_def)
  have lo: "\<lfloor>X - \<eta>\<rfloor> \<le> k"
  proof (cases "0 \<le> res")
    case True
    have "X - \<eta> \<le> res" using close by linarith
    then have "\<lfloor>X - \<eta>\<rfloor> \<le> \<lfloor>res\<rfloor>" by (rule floor_mono)
    then show ?thesis using True by (simp add: k_def)
  next
    case False
    then have "- 1 < res" "res \<le> 0" using res_lo by simp_all
    then have "\<lceil>res\<rceil> = 0" by (intro ceiling_unique) simp_all
    then have k0: "k = 0" using False by (simp add: k_def)
    have "X - \<eta> < 0" using close False by linarith
    then have "\<lfloor>X - \<eta>\<rfloor> < 0" by (simp only: floor_less_zero)
    then show ?thesis using k0 by simp
  qed
  have hi: "k \<le> \<lfloor>X + \<eta>\<rfloor>"
  proof (cases "0 \<le> res")
    case True
    have "res \<le> X + \<eta>" using close by linarith
    then have "\<lfloor>res\<rfloor> \<le> \<lfloor>X + \<eta>\<rfloor>" by (rule floor_mono)
    then show ?thesis using True by (simp add: k_def)
  next
    case False
    then have "- 1 < res" "res \<le> 0" using res_lo by simp_all
    then have "\<lceil>res\<rceil> = 0" by (intro ceiling_unique) simp_all
    then have k0: "k = 0" using False by (simp add: k_def)
    have "0 \<le> X + \<eta>" using X0 eta0 by simp
    then have "0 \<le> \<lfloor>X + \<eta>\<rfloor>" by simp
    then show ?thesis using k0 by simp
  qed
  have "X - 1 \<le> X - \<eta>" using eta_le by simp
  then have "\<lfloor>X - 1\<rfloor> \<le> \<lfloor>X - \<eta>\<rfloor>" by (rule floor_mono)
  then have lo1: "\<lfloor>X\<rfloor> - 1 \<le> k" using lo by simp
  have "X + \<eta> \<le> X + 1" using eta_le by simp
  then have "\<lfloor>X + \<eta>\<rfloor> \<le> \<lfloor>X + 1\<rfloor>" by (rule floor_mono)
  then have hi1: "k \<le> \<lfloor>X\<rfloor> + 1" using hi by simp
  have near: "\<bar>uint a + k - special_hot_formula (unat (rand_pct g)) a b rnd\<bar> \<le> 1"
    unfolding special_hot_formula_offset offset using lo1 hi1 by linarith
  show ?thesis
    unfolding offset eta using call lo hi near by (intro exI [of _ k]) (simp add: offset)
qed

text \<open>
  Claim C6, as amended, with the default options, \<open>P = 1\<close>, on the range \<open>[0, 100]\<close> at
  the draw \<open>3/4 - 2 ^ - 52\<close>, where the function returns \<open>51\<close> and the formula has the
  floor \<open>50\<close>.
\<close>

theorem special_hot_close_witness:
  "(0::u32) \<le> 100 \<and> unat (rand_pct default_process) \<le> 100 \<and>
   \<not> special_cold default_process (of_u32 (100 - 0)) (3 / 4 - 1 / 2 ^ 52) \<and>
   (\<exists>k. sb_rand_special default_process (draws_const (3 / 4 - 1 / 2 ^ 52)) 0 100 0 =
           (Some (0 + word_of_int k), 1) \<and>
        \<lfloor>special_hot_offset (unat (rand_pct default_process)) 0 100 (3 / 4 - 1 / 2 ^ 52) -
           of_int (uint (100::u32) - uint (0::u32) + 2) / 2 ^ 48\<rfloor> \<le> k \<and>
        k \<le> \<lfloor>special_hot_offset (unat (rand_pct default_process)) 0 100 (3 / 4 - 1 / 2 ^ 52) +
               of_int (uint (100::u32) - uint (0::u32) + 2) / 2 ^ 48\<rfloor> \<and>
        \<bar>uint (0::u32) + k -
           special_hot_formula (unat (rand_pct default_process)) 0 100 (3 / 4 - 1 / 2 ^ 52)\<bar> \<le> 1)"
proof -
  have h1: "(0::u32) \<le> 100" by simp
  have h1': "uint (100::u32) - uint (0::u32) + 1 < 2 ^ 32" by simp
  have h2: "unat (rand_pct default_process) \<le> 100"
    by (simp add: default_process_params)
  have h3: "draws_const (3 / 4 - 1 / 2 ^ 52) (0::nat) = (3 / 4 - 1 / 2 ^ 52, 1)"
    by (simp add: draws_const_def)
  have h4: "(0::rat) \<le> 3 / 4 - 1 / 2 ^ 52" "(3::rat) / 4 - 1 / 2 ^ 52 < 1" by simp_all
  have h5: "\<not> special_cold default_process (of_u32 (100 - 0)) (3 / 4 - 1 / 2 ^ 52)"
    by (simp add: special_cold_def default_process_params fp_eval)
  have h6: "rand_pct_mult default_process = fl (of_u32 (rand_pct default_process) / 100)"
    "rand_pct_2_mult default_process = fl (of_u32 (rand_pct default_process) / 200)"
    by (simp_all add: default_process_params fp_eval)
  from special_hot_close [where nd = "draws_const (3 / 4 - 1 / 2 ^ 52)" and s = "0::nat",
      OF h1 h1' h2 h3 h4 h5 h6]
  show ?thesis using h1 h2 h5 by simp
qed

text \<open>
  When \<open>P \<le> 100\<close> and none of the operations rounds, the hot branch returns exactly
  \<open>a + \<lfloor>rnd * ((b - a) * P / 100 + 1) + (b - a) / 2 - (b - a) * P / 200\<rfloor>\<close>, and the
  value lies in \<open>[a, b]\<close>.
\<close>

lemma special_hot_exact:
  assumes ab: "a \<le> b" and pct: "unat (rand_pct g) \<le> 100"
    and draw: "nd s = (rnd, s1)" and rnd: "0 \<le> rnd" "rnd < 1"
    and hot: "\<not> special_cold g (of_u32 (b - a)) rnd"
    and mults: "rand_pct_mult g = fl (of_u32 (rand_pct g) / 100)"
      "rand_pct_2_mult g = fl (of_u32 (rand_pct g) / 200)"
    and exact: "hot_path_exact (unat (rand_pct g)) (of_u32 (b - a)) rnd"
  shows "\<exists>r. sb_rand_special g nd a b s = (Some r, s1) \<and>
           uint r = special_hot_formula (unat (rand_pct g)) a b rnd \<and> a \<le> r \<and> r \<le> b"
proof -
  define t where "t = of_u32 (b - a)"
  define P :: rat where "P = of_nat (unat (rand_pct g))"
  define res where "res = rnd * (t * (P / 100) + 1) + (t / 2 - t * (P / 200))"
  define w where "w = uint b - uint a"
  have uab: "uint a \<le> uint b" using ab by (simp add: word_le_def)
  have w0: "0 \<le> w" using uab by (simp add: w_def)
  have bb: "uint b < 2 ^ 32" using uint_lt2p [of b] by simp
  have a0: "0 \<le> uint a" by simp
  have w32: "w + 1 \<le> 2 ^ 32" unfolding w_def using bb uint_ge_0 [of a] by linarith
  have t_int: "t = of_int w" unfolding t_def w_def by (rule of_u32_diff [OF ab])
  have t0: "0 \<le> t" using w0 by (simp only: t_int of_int_0_le_iff)
  have P0: "0 \<le> P" by (simp only: P_def of_nat_0_le_iff)
  have P100: "P \<le> 100"
  proof -
    have "(of_nat (unat (rand_pct g)) :: rat) \<le> of_nat 100"
      using pct by (simp only: of_nat_le_iff)
    then show ?thesis by (simp add: P_def)
  qed
  have ex: "fl (P / 100) = P / 100" "fl (P / 200) = P / 200"
    "fl (t * (P / 100)) = t * (P / 100)" "fl (t * (P / 100) + 1) = t * (P / 100) + 1"
    "fl (rnd * (t * (P / 100) + 1)) = rnd * (t * (P / 100) + 1)"
    "fl (t / 2) = t / 2" "fl (t * (P / 200)) = t * (P / 200)"
    "fl (t / 2 - t * (P / 200)) = t / 2 - t * (P / 200)"
    "fl (rnd * (t * (P / 100) + 1) + (t / 2 - t * (P / 200))) =
       rnd * (t * (P / 100) + 1) + (t / 2 - t * (P / 200))"
    using exact by (simp_all add: hot_path_exact_def representable_def t_def P_def)
  have pm: "rand_pct_mult g = P / 100" "rand_pct_2_mult g = P / 200"
    using mults ex(1,2) by (simp_all add: of_u32_def P_def)
  have hot_res: "special_hot_res g t rnd = res"
    by (simp only: special_hot_res_def Let_def pm fadd_def fsub_def fmul_def ex res_def)
  have res0: "0 \<le> res" and res_lt: "res < t + 1"
    unfolding res_def using hot_value_bounds [OF t0 P0 P100 rnd] by simp_all
  have fl0: "0 \<le> \<lfloor>res\<rfloor>" using res0 by simp
  have "res < of_int (w + 1)" using res_lt by (simp add: t_int)
  then have "\<lfloor>res\<rfloor> < w + 1" by (simp only: floor_less_iff)
  then have fl_le: "\<lfloor>res\<rfloor> \<le> w" by simp
  have "rat_of_int (w + 1) \<le> rat_of_int (2 ^ 32)"
    using w32 by (simp only: of_int_le_iff)
  then have "t + 1 \<le> 2 ^ 32" by (simp add: t_int)
  then have res32: "res < 2 ^ 32" using res_lt by simp
  define v :: u32 where "v = word_of_int \<lfloor>res\<rfloor>"
  have tu: "to_u32 res = Some v"
    using res0 res32 by (simp add: to_u32_def v_def)
  have uv: "uint v = \<lfloor>res\<rfloor>"
  proof -
    have "\<lfloor>res\<rfloor> < 2 ^ 32" using fl_le w32 by linarith
    then show ?thesis
      unfolding v_def using fl0 by (simp add: uint_word_of_int mod_pos_pos_trivial)
  qed
  have ur: "uint (a + v) = uint a + \<lfloor>res\<rfloor>"
  proof -
    have "uint (a + v) = (uint a + uint v) mod 2 ^ 32" by (simp add: uint_word_ariths)
    also have "\<dots> = uint a + \<lfloor>res\<rfloor>"
    proof -
      have "uint a + \<lfloor>res\<rfloor> < 2 ^ 32" using fl_le bb unfolding w_def by linarith
      moreover have "0 \<le> uint a + \<lfloor>res\<rfloor>" using fl0 by simp
      ultimately show ?thesis using uv by (simp add: mod_pos_pos_trivial)
    qed
    finally show ?thesis .
  qed
  have call: "sb_rand_special g nd a b s = (Some (a + v), s1)"
    using hot draw hot_res tu
    by (simp add: sb_rand_special_def Let_def add_u32_result_def t_def)
  have formula: "special_hot_formula (unat (rand_pct g)) a b rnd = uint a + \<lfloor>res\<rfloor>"
  proof -
    have "special_hot_formula (unat (rand_pct g)) a b rnd =
            uint a + \<lfloor>rnd * (of_int w * P / 100 + 1) + of_int w / 2 - of_int w * P / 200\<rfloor>"
      by (simp only: special_hot_formula_def Let_def w_def P_def)
    also have "\<dots> = uint a + \<lfloor>res\<rfloor>"
      by (simp add: res_def t_int algebra_simps)
    finally show ?thesis .
  qed
  have "a \<le> a + v" using ur fl0 by (simp add: word_le_def)
  moreover have "a + v \<le> b" using ur fl_le by (simp add: word_le_def w_def)
  ultimately show ?thesis using call ur formula by simp
qed

text \<open>This is so at \<open>P = 50\<close> on the range \<open>[0, 4]\<close> with the draw \<open>1/2\<close>.\<close>

lemma special_hot_exact_half_band:
  "(0::u32) \<le> 4 \<and> unat (rand_pct half_band_process) \<le> 100 \<and>
   \<not> special_cold half_band_process (of_u32 (4 - 0)) (1 / 2) \<and>
   hot_path_exact (unat (rand_pct half_band_process)) (of_u32 (4 - 0)) (1 / 2) \<and>
   (\<exists>r. sb_rand_special half_band_process (draws_const (1 / 2)) 0 4 0 = (Some r, 1) \<and>
        uint r = special_hot_formula (unat (rand_pct half_band_process)) 0 4 (1 / 2) \<and>
        0 \<le> r \<and> r \<le> 4)"
proof -
  have h1: "(0::u32) \<le> 4" by simp
  have h2: "unat (rand_pct half_band_process) \<le> 100"
    by (simp add: half_band_process_params)
  have h3: "draws_const (1 / 2) (0::nat) = (1 / 2, 1)"
    by (simp add: draws_const_def)
  have h4: "(0::rat) \<le> 1 / 2" "(1::rat) / 2 < 1" by simp_all
  have h5: "\<not> special_cold half_band_process (of_u32 (4 - 0)) (1 / 2)"
    by (simp add: special_cold_def half_band_process_params fp_eval)
  have h6: "rand_pct_mult half_band_process = fl (of_u32 (rand_pct half_band_process) / 100)"
    "rand_pct_2_mult half_band_process = fl (of_u32 (rand_pct half_band_process) / 200)"
    by (simp_all add: half_band_process_params fp_eval)
  have h7: "hot_path_exact (unat (rand_pct half_band_process)) (of_u32 (4 - 0)) (1 / 2)"
    by (simp add: hot_path_exact_def representable_def half_band_process_params fp_eval)
  from special_hot_exact [where nd = "draws_const (1 / 2)" and s = "0::nat", OF h1 h2 h3 h4 h5 h6 h7]
  show ?thesis using h1 h2 h5 h7 by simp
qed

section \<open>The Pareto distribution\<close>

text \<open>
  What \<^verbatim>\<open>sb_rand_pareto\<close> returns is decided by the double that \<^verbatim>\<open>pow\<close> returns. When
  that is a double in \<open>[0,1)\<close> the result lies in \<open>[a, b]\<close>; when it is \<open>1\<close> the result is
  \<open>b + 1\<close>.
\<close>

lemma sb_rand_pareto_in_range:
  assumes ab: "a \<le> b" and size: "uint b - uint a + 1 < 2 ^ 32"
    and draw: "nd s = (u, s')"
    and pow: "lm_pow lm u (pareto_power g) = Finite y"
    and y: "representable y" "0 \<le> y" "y < 1"
  shows "\<exists>r. sb_rand_pareto lm g nd a b s = (Some r, s') \<and> a \<le> r \<and> r \<le> b"
proof -
  define w where "w = uint b - uint a + 1"
  define v where "v = fmul (of_u32 (b - a + 1)) y"
  have uab: "uint a \<le> uint b" using ab by (simp add: word_le_def)
  have wpos: "1 \<le> w" using uab by (simp add: w_def)
  have uw: "uint (b - a + 1) = w" unfolding w_def by (rule uint_range_size [OF ab size])
  have "of_u32 (b - a + 1) = rat_of_int (uint (b - a + 1))" by (simp add: of_u32_def)
  then have n_int: "of_u32 (b - a + 1) = rat_of_int w" using uw by simp
  have n1: "1 \<le> rat_of_int w" using wpos by simp
  have v_lt: "v < rat_of_int w"
    unfolding v_def fmul_def n_int using y n1 by (rule fl_mul_below)
  have "0 \<le> rat_of_int w * y" using n1 y(2) by simp
  then have v0: "0 \<le> v" unfolding v_def fmul_def n_int by (rule fl_nonneg)
  have k0: "0 \<le> \<lfloor>v\<rfloor>" using v0 by simp
  have "\<lfloor>v\<rfloor> < w" using v_lt by (simp only: floor_less_iff)
  then have k_le: "\<lfloor>v\<rfloor> \<le> uint b - uint a" by (simp add: w_def)
  have bb: "uint b < 2 ^ 32" using uint_lt2p [of b] by simp
  have "rat_of_int w < rat_of_int (2 ^ 32)"
    using size unfolding w_def by (simp only: of_int_less_iff)
  then have v32: "v < 2 ^ 32" using v_lt by simp
  define x :: u32 where "x = word_of_int \<lfloor>v\<rfloor>"
  have conv: "to_u32 v = Some x"
    using v0 v32 by (simp add: to_u32_def x_def)
  have ux: "uint x = \<lfloor>v\<rfloor>"
  proof -
    have "\<lfloor>v\<rfloor> < 2 ^ 32" using k_le bb uint_ge_0 [of a] by linarith
    then show ?thesis
      unfolding x_def using k0 by (simp add: uint_word_of_int mod_pos_pos_trivial)
  qed
  have ur: "uint (a + x) = uint a + \<lfloor>v\<rfloor>"
  proof -
    have "uint (a + x) = (uint a + uint x) mod 2 ^ 32" by (simp add: uint_word_ariths)
    also have "\<dots> = uint a + \<lfloor>v\<rfloor>"
    proof -
      have "uint a + \<lfloor>v\<rfloor> < 2 ^ 32" using k_le bb by linarith
      moreover have "0 \<le> uint a + \<lfloor>v\<rfloor>" using k0 by simp
      ultimately show ?thesis using ux by (simp add: mod_pos_pos_trivial)
    qed
    finally show ?thesis .
  qed
  have call: "sb_rand_pareto lm g nd a b s = (Some (a + x), s')"
    using draw pow conv by (simp add: sb_rand_pareto_def add_u32_result_def v_def)
  have "a \<le> a + x" using ur k0 by (simp add: word_le_def)
  moreover have "a + x \<le> b" using ur k_le by (simp add: word_le_def)
  ultimately show ?thesis using call by simp
qed

lemma sb_rand_pareto_pow_one:
  assumes ab: "a \<le> b" and size: "uint b - uint a + 1 < 2 ^ 32"
    and draw: "nd s = (u, s')"
    and pow: "lm_pow lm u (pareto_power g) = Finite 1"
  shows "sb_rand_pareto lm g nd a b s = (Some (b + 1), s')"
proof -
  define w where "w = uint b - uint a + 1"
  have uab: "uint a \<le> uint b" using ab by (simp add: word_le_def)
  have wpos: "0 < w" using uab by (simp add: w_def)
  have uw: "uint (b - a + 1) = w" unfolding w_def by (rule uint_range_size [OF ab size])
  have "of_u32 (b - a + 1) = rat_of_int (uint (b - a + 1))" by (simp add: of_u32_def)
  then have n_int: "of_u32 (b - a + 1) = rat_of_int w" using uw by simp
  have "fmul (of_u32 (b - a + 1)) 1 = of_u32 (b - a + 1)"
    using representable_of_u32 [of "b - a + 1"] by (simp add: fmul_def representable_def)
  then have val: "fmul (of_u32 (b - a + 1)) 1 = rat_of_int w" using n_int by simp
  have w0: "(0::rat) \<le> rat_of_int w" using wpos by simp
  have "rat_of_int w < rat_of_int (2 ^ 32)" using size unfolding w_def by (simp only: of_int_less_iff)
  then have w32: "rat_of_int w < 2 ^ 32" by simp
  have "to_u32 (rat_of_int w) = Some (word_of_int w)"
    using w0 w32 by (simp add: to_u32_def)
  also have "(word_of_int w :: u32) = b - a + 1"
    using uw by (metis word_of_int_uint)
  finally have conv: "to_u32 (rat_of_int w) = Some (b - a + 1)" .
  show ?thesis
    using draw pow val conv by (simp add: sb_rand_pareto_def add_u32_result_def)
qed

text \<open>
  \<^verbatim>\<open>pow\<close> does return \<open>1\<close> for a base below \<open>1\<close>. For the base \<open>1 - 2 ^ - 52\<close>, the
  largest value that a generator of 52-bit fractions returns, and an exponent \<open>p\<close> with
  \<open>0 < p \<le> 1/8\<close>, the power lies strictly between \<open>1 - 2 ^ - 54\<close> and \<open>1\<close>, so that \<open>1\<close>
  is nearer to it than every other double.
\<close>

lemma true_power_near_one:
  fixes p :: real
  assumes "0 < p" and "p \<le> 1 / 8"
  shows "1 - 1 / 2 ^ 54 < (1 - 1 / 2 ^ 52) powr p" and "(1 - 1 / 2 ^ 52) powr p < 1"
proof -
  define x :: real where "x = 1 / 2 ^ 52"
  have x: "0 < x" "x \<le> 1 / 2" by (simp_all add: x_def)
  have l: "- x - 2 * x\<^sup>2 \<le> ln (1 - x)"
    using x by (intro ln_one_minus_pos_lower_bound) simp_all
  have "0 \<le> x\<^sup>2" by simp
  then have lneg: "- x - 2 * x\<^sup>2 \<le> 0" using x by linarith
  have "p * (- x - 2 * x\<^sup>2) \<ge> (1 / 8) * (- x - 2 * x\<^sup>2)"
    using assms lneg by (intro mult_right_mono_neg) simp_all
  moreover have "p * (- x - 2 * x\<^sup>2) \<le> p * ln (1 - x)"
    using l assms(1) by (intro mult_left_mono) simp_all
  ultimately have "(1 / 8) * (- x - 2 * x\<^sup>2) \<le> p * ln (1 - x)" by linarith
  moreover have "(1 - x) powr p = exp (p * ln (1 - x))"
    using x by (simp add: powr_def)
  moreover have "1 + p * ln (1 - x) \<le> exp (p * ln (1 - x))"
    by (rule exp_ge_add_one_self)
  moreover have "1 - 1 / 2 ^ 54 < 1 + (1 / 8) * (- x - 2 * x\<^sup>2)"
    by (simp add: x_def power2_eq_square)
  ultimately show "1 - 1 / 2 ^ 54 < (1 - 1 / 2 ^ 52) powr p"
    unfolding x_def by linarith
  have "(1 - x) powr p < 1 powr p"
    using assms(1) x by (intro powr_less_mono2) simp_all
  then show "(1 - 1 / 2 ^ 52) powr p < 1" by (simp add: x_def)
qed

lemma one_is_nearest_double:
  fixes p :: real
  assumes "0 < p" and "p \<le> 1 / 8" and "representable y" and "y \<noteq> 1"
  shows "\<bar>1 - (1 - 1 / 2 ^ 52) powr p\<bar> < \<bar>real_of_rat y - (1 - 1 / 2 ^ 52) powr p\<bar>"
proof -
  define v where "v = (1 - 1 / 2 ^ 52 :: real) powr p"
  have v: "1 - 1 / 2 ^ 54 < v" "v < 1"
    unfolding v_def using true_power_near_one [OF assms(1,2)] by simp_all
  show ?thesis
  proof (cases "y < 1")
    case True
    have "y \<le> 1 - 1 / 2 ^ 53" using assms(3) True by (rule representable_below_one)
    then have "real_of_rat y \<le> real_of_rat (1 - 1 / 2 ^ 53)" by (simp only: of_rat_less_eq)
    then have "real_of_rat y \<le> 1 - 1 / 2 ^ 53" by (simp add: of_rat_diff of_rat_divide of_rat_power)
    moreover have "(1::real) / 2 ^ 53 = 2 * (1 / 2 ^ 54)" by simp
    ultimately show ?thesis unfolding v_def [symmetric] using v by linarith
  next
    case False
    then have "1 < y" using assms(4) by simp
    then have "real_of_rat 1 < real_of_rat y" by (simp only: of_rat_less)
    then have "1 < real_of_rat y" by simp
    then show ?thesis unfolding v_def [symmetric] using v by linarith
  qed
qed

lemma sample_pow_nearest:
  assumes "representable y" and "y \<noteq> 1"
  shows "\<bar>1 - (1 - 1 / 2 ^ 52) powr (3297174679015447 / 2 ^ 56)\<bar> <
           \<bar>real_of_rat y - (1 - 1 / 2 ^ 52) powr (3297174679015447 / 2 ^ 56)\<bar>"
  using assms by (intro one_is_nearest_double) simp_all

text \<open>
  The formula of the specification at the top of the range: for a shape parameter \<open>H\<close> in
  \<open>[1/2, 1)\<close> the exponent is in \<open>(0, 1]\<close>, and a draw \<open>u\<close> with
  \<open>1 - 1 / (b - a + 1) \<le> u < 1\<close> gives \<open>b\<close>.
\<close>

lemma pareto_formula_top:
  assumes ab: "a \<le> b"
    and H: "1 / 2 \<le> H" "H < 1"
    and u: "1 - 1 / of_int (uint b - uint a + 1) \<le> u" "u < 1"
  shows "pareto_formula a b u H = uint b"
proof -
  define w where "w = uint b - uint a + 1"
  define n where "n = real_of_int w"
  define h where "h = real_of_rat H"
  define x where "x = real_of_rat u"
  define p where "p = ln h / ln (1 - h)"
  have uab: "uint a \<le> uint b" using ab by (simp add: word_le_def)
  have wpos: "1 \<le> w" using uab by (simp add: w_def)
  have npos: "1 \<le> n" using wpos by (simp add: n_def)
  have h1: "1 / 2 \<le> h" "h < 1"
  proof -
    have "real_of_rat (1 / 2) \<le> real_of_rat H" using H(1) by (simp only: of_rat_less_eq)
    then show "1 / 2 \<le> h" by (simp add: h_def of_rat_divide)
    have "real_of_rat H < real_of_rat 1" using H(2) by (simp only: of_rat_less)
    then show "h < 1" by (simp add: h_def)
  qed
  have x1: "x < 1"
  proof -
    have "real_of_rat u < real_of_rat 1" using u(2) by (simp only: of_rat_less)
    then show ?thesis by (simp add: x_def)
  qed
  have xlo: "1 - 1 / n \<le> x"
  proof -
    have "real_of_rat (1 - 1 / of_int w) \<le> real_of_rat u"
      using u(1) unfolding w_def by (simp only: of_rat_less_eq)
    then show ?thesis by (simp add: x_def n_def of_rat_diff of_rat_divide)
  qed
  have x0: "0 \<le> x" using xlo npos by (smt (verit) divide_le_eq_1_pos)
  have lh: "ln h < 0" using h1 by simp
  have l1h: "ln (1 - h) < 0" using h1 by simp
  have "ln (1 - h) \<le> ln h" using h1 by simp
  then have p1: "p \<le> 1" unfolding p_def using l1h by (simp add: field_simps)
  have p0: "0 < p" unfolding p_def using lh l1h by (simp add: field_simps)
  have up: "x powr p < 1"
  proof (cases "x = 0")
    case True
    then show ?thesis using p0 by simp
  next
    case False
    have "x powr p < 1 powr p"
      using p0 x0 x1 by (rule powr_less_mono2)
    then show ?thesis by simp
  qed
  have lo: "x \<le> x powr p"
  proof (cases "x = 0")
    case True
    then show ?thesis by simp
  next
    case False
    then have xpos: "0 < x" using x0 by simp
    have "x powr 1 \<le> x powr p"
      using p1 x0 x1 by (intro powr_mono') simp_all
    then show ?thesis using xpos by simp
  qed
  have "n - 1 \<le> n * x"
  proof -
    have "n * (1 - 1 / n) \<le> n * x" using xlo npos by (intro mult_left_mono) simp_all
    moreover have "n * (1 - 1 / n) = n - 1" using npos by (simp add: right_diff_distrib)
    ultimately show ?thesis by simp
  qed
  also have "n * x \<le> n * x powr p" using lo npos by (intro mult_left_mono) simp_all
  finally have ge: "real_of_int (w - 1) \<le> n * x powr p" by (simp add: n_def)
  have "n * x powr p < n * 1" using up npos by (intro mult_strict_left_mono) simp_all
  then have lt: "n * x powr p < real_of_int (w - 1) + 1" by (simp add: n_def)
  have "\<lfloor>n * x powr p\<rfloor> = w - 1" using ge lt by (rule floor_unique)
  then show ?thesis
    by (simp add: pareto_formula_def w_def [symmetric] n_def [symmetric] h_def [symmetric]
          x_def [symmetric] p_def [symmetric]) (simp add: w_def)
qed

text \<open>
  The state after \<^verbatim>\<open>sb_rand_init\<close> with \<^verbatim>\<open>rand-type\<close> \<open>pareto\<close> and \<^verbatim>\<open>rand-pareto-h\<close>
  \<open>0.9\<close>. At \<^verbatim>\<open>rand-pareto-h\<close> \<open>1\<close> the quotient of the logarithms is \<open>0 / - \<infinity>\<close>, which
  is zero; \<^verbatim>\<open>pow\<close> then returns \<open>1\<close> and every call returns \<open>b + 1\<close>.
\<close>

lemma pareto_process_params:
  "pareto_h pareto_process = 8106479329266893 / 2 ^ 53"
  "pareto_power pareto_process = Finite (3297174679015447 / 2 ^ 56)"
  unfolding pareto_process_def
  by (simp_all add: sb_rand_init_def select_distribution_def Let_def default_options_def
        sb_rand_thread_init_statics compute_pareto_power_def sample_libm_def fp_eval)

lemma compute_pareto_power_one:
  assumes "lm_log lm 1 = Finite 0" and "lm_log lm 0 = MInf"
  shows "compute_pareto_power lm 1 = Finite 0"
  using assms by (simp add: compute_pareto_power_def fsub_def fl_numeral)

lemma sb_rand_pareto_shape_one:
  assumes valid: "opt_rand_type opts \<in> {''uniform'', ''gaussian'', ''special'', ''pareto''}"
    and h: "opt_rand_pareto_h opts = 1"
    and logs: "lm_log lm 1 = Finite 0" "lm_log lm 0 = MInf"
    and pow: "lm_pow lm u (Finite 0) = Finite 1"
    and ab: "a \<le> b" and size: "uint b - uint a + 1 < 2 ^ 32"
    and draw: "nd s = (u, s')"
  shows "sb_rand_pareto lm (snd (sb_rand_init lm opts p)) nd a b s = (Some (b + 1), s')"
proof -
  have "pareto_power (snd (sb_rand_init lm opts p)) = Finite 0"
    using sb_rand_init_pareto_power(2) [OF valid, of lm p] compute_pareto_power_one [OF logs]
    by (simp add: h)
  then have "lm_pow lm u (pareto_power (snd (sb_rand_init lm opts p))) = Finite 1"
    using pow by simp
  with ab size draw show ?thesis by (rule sb_rand_pareto_pow_one)
qed

text \<open>
  Claim C7: \<^verbatim>\<open>sb_rand_pareto\<close> should return \<open>a + \<lfloor>(b - a + 1) * u ^ power\<rfloor>\<close>, a value
  in \<open>[a, b]\<close>. With \<^verbatim>\<open>rand-pareto-h\<close> \<open>0.9\<close>, on the range \<open>[1, 100]\<close> and at the draw
  \<open>u = 1 - 2 ^ - 52\<close>, a double in \<open>[0,1)\<close>, \<^verbatim>\<open>pow\<close> returns \<open>1\<close> and the function
  returns \<open>101\<close>, above \<open>b\<close>; the formula gives \<open>100\<close>.
\<close>

theorem sb_rand_pareto_exceeds_range:
  "representable (1 - 1 / 2 ^ 52) \<and>
   pareto_h pareto_process = fl (9 / 10) \<and>
   pareto_power pareto_process = Finite (3297174679015447 / 2 ^ 56) \<and>
   lm_pow sample_libm (1 - 1 / 2 ^ 52) (pareto_power pareto_process) = Finite 1 \<and>
   sb_rand_pareto sample_libm pareto_process (draws_const (1 - 1 / 2 ^ 52)) 1 100 0 =
     (Some 101, 1) \<and>
   pareto_formula 1 100 (1 - 1 / 2 ^ 52) (fl (9 / 10)) = 100"
proof -
  have 1: "representable (1 - 1 / 2 ^ 52)"
    by (simp add: representable_def fp_eval)
  have 2: "pareto_h pareto_process = fl (9 / 10)"
    "pareto_power pareto_process = Finite (3297174679015447 / 2 ^ 56)"
    "lm_pow sample_libm (1 - 1 / 2 ^ 52) (pareto_power pareto_process) = Finite 1"
    by (simp_all add: pareto_process_params sample_libm_def fp_eval)
  have 3: "sb_rand_pareto sample_libm pareto_process (draws_const (1 - 1 / 2 ^ 52)) 1 100 0 =
     (Some 101, 1)"
    by (simp add: sb_rand_pareto_def pareto_process_params sample_libm_def draws_const_def
          fp_eval cong: prod.case_cong_weak option.case_cong_weak)
  have 4: "pareto_formula 1 100 (1 - 1 / 2 ^ 52) (fl (9 / 10)) = uint (100::u32)"
    by (rule pareto_formula_top) (simp_all add: fp_eval)
  show ?thesis using 1 2 3 4 by simp
qed

section \<open>Properties of random strings\<close>

lemma str_loop_done: "\<not> i < length fmt \<Longrightarrow> str_loop nd fmt i buf s = Some (buf, s)"
  by (subst str_loop.simps) simp

lemma str_loop_step:
  "i < length fmt \<Longrightarrow> str_loop nd fmt i buf s =
     (if length buf \<le> i then None
      else if fmt ! i = CHR ''#'' then
        (case fst (sb_rand_uniform nd (of_char CHR ''0'') (of_char CHR ''9'') s) of
           None \<Rightarrow> None
         | Some r \<Rightarrow>
             str_loop nd fmt (i + 1) (buf[i := store_char r])
               (snd (sb_rand_uniform nd (of_char CHR ''0'') (of_char CHR ''9'') s)))
      else if fmt ! i = CHR ''@'' then
        (case fst (sb_rand_uniform nd (of_char CHR ''a'') (of_char CHR ''z'') s) of
           None \<Rightarrow> None
         | Some r \<Rightarrow>
             str_loop nd fmt (i + 1) (buf[i := store_char r])
               (snd (sb_rand_uniform nd (of_char CHR ''a'') (of_char CHR ''z'') s)))
      else str_loop nd fmt (i + 1) (buf[i := fmt ! i]) s)"
  by (subst str_loop.simps) simp

lemma store_char_values:
  "store_char 58 = CHR 0x3A"
  "store_char 123 = CHR 0x7B"
  by (simp_all add: store_char_def char_of_def bit_iff_odd)

text \<open>
  Claim C9: \<^verbatim>\<open>sb_rand_str\<close> should store a character in \<open>'0'..'9'\<close> for \<open>#\<close> and one in
  \<open>'a'..'z'\<close> for \<open>@\<close>. When the generator returns \<open>1 - 2 ^ - 52\<close>, the largest double below
  1 with 52 fractional bits, the template \<open>#-@\<close> yields a colon, the character after
  \<open>'9'\<close>, and an opening brace, the character after \<open>'z'\<close>. The fourth byte of the buffer
  is untouched.
\<close>

theorem sb_rand_str_out_of_class:
  "representable (1 - 1 / 2 ^ 52) \<and>
   sb_rand_str (draws_const (1 - 1 / 2 ^ 52)) ''#-@'' ''wxyz'' 0 = Some ('':-{z'', 2)"
  by (simp add: representable_def sb_rand_str_def str_loop_step str_loop_done
        sb_rand_uniform_def draws_const_def store_char_values fp_eval
        cong: prod.case_cong_weak option.case_cong_weak)






text \<open>A buffer shorter than the template is overrun.\<close>

lemma str_loop_overflow:
  assumes "length buf < length fmt" and "i \<le> length buf"
  shows "str_loop nd fmt i buf s = None"
  using assms
proof (induction "length buf - i" arbitrary: i buf s)
  case 0
  then have "i < length fmt" "length buf \<le> i" by simp_all
  then show ?case by (simp add: str_loop_step)
next
  case (Suc k)
  then have lt: "i < length fmt" and ib: "\<not> length buf \<le> i" by simp_all
  have rec: "str_loop nd fmt (i + 1) (buf[i := c]) t = None" for c t
    using Suc.hyps(1) [of "buf[i := c]" "i + 1" t] Suc.hyps(2) Suc.prems by simp
  show ?case
    using lt ib rec by (simp add: str_loop_step split: option.split)
qed

lemma sb_rand_str_overflow:
  "length buf < length fmt \<Longrightarrow> sb_rand_str nd fmt buf s = None"
  by (simp add: sb_rand_str_def str_loop_overflow)

end
